theory Spec2Isabelle
  imports Main "HOL-Library.Char_ord" "HOL-Library.List_Lexorder" "HOL-Library.AList"
begin

section \<open>Time and durations\<close>

text \<open>
  A \<open>time.Time\<close> is modelled by the instant it denotes: the number of nanoseconds since
  the zero Time (January 1, year 1, 00:00:00 UTC), an unbounded integer. The timestamps
  of the program come from \<open>time.Parse\<close> and carry no monotonic clock reading, so
  \<open>Before\<close>, \<open>After\<close>, \<open>Compare\<close> and \<open>Sub\<close> work on the instant alone.
  A \<open>time.Duration\<close> is a signed 64-bit count of nanoseconds: its arithmetic wraps
  around, its division truncates towards zero, and \<open>Time.Sub\<close> saturates.
\<close>

type_synonym Time = int
type_synonym Duration = int

definition minDuration :: Duration where
  "minDuration = - (2 ^ 63)"

definition maxDuration :: Duration where
  "maxDuration = 2 ^ 63 - 1"

definition wrap64 :: "int \<Rightarrow> Duration" where
  "wrap64 x = (x + 2 ^ 63) mod 2 ^ 64 - 2 ^ 63"

definition trunc_quot :: "int \<Rightarrow> int \<Rightarrow> int" where
  "trunc_quot a b = sgn a * sgn b * (\<bar>a\<bar> div \<bar>b\<bar>)"

definition dur_add :: "Duration \<Rightarrow> Duration \<Rightarrow> Duration" where
  "dur_add a b = wrap64 (a + b)"

definition dur_quot :: "Duration \<Rightarrow> Duration \<Rightarrow> Duration" where
  "dur_quot a b = wrap64 (trunc_quot a b)"

definition dur_neg :: "Duration \<Rightarrow> Duration" where
  "dur_neg a = wrap64 (- a)"

definition Time_IsZero :: "Time \<Rightarrow> bool" where
  "Time_IsZero t = (t = 0)"

definition Time_After :: "Time \<Rightarrow> Time \<Rightarrow> bool" where
  "Time_After t u = (u < t)"

definition Time_Before :: "Time \<Rightarrow> Time \<Rightarrow> bool" where
  "Time_Before t u = (t < u)"

definition Time_Add :: "Time \<Rightarrow> Duration \<Rightarrow> Time" where
  "Time_Add t d = t + d"

definition Time_Sub :: "Time \<Rightarrow> Time \<Rightarrow> Duration" where
  "Time_Sub t u =
     (if maxDuration < t - u then maxDuration
      else if t - u < minDuration then minDuration
      else t - u)"

section \<open>Package tracking: GroupState\<close>

record GroupState =
  up :: bool
  timestamp :: Time
  timeout :: Duration

definition NewGroupState :: "Time \<Rightarrow> GroupState" where
  "NewGroupState ts = \<lparr>up = False, timestamp = ts, timeout = 0\<rparr>"

text \<open>\<open>IsUp\<close> reads the clock once; the reading is the argument \<open>now\<close>.\<close>

definition IsUp :: "GroupState \<Rightarrow> Time \<Rightarrow> bool" where
  "IsUp gs now =
     (if Time_IsZero (timestamp gs) \<or> timeout gs = 0 then False
      else let expiration = Time_Add (timestamp gs) (timeout gs)
           in Time_Before now expiration)"

text \<open>
  \<open>Update\<close> mutates the receiver and returns a flag: the model returns the flag and the
  new state. \<open>now\<close> is the clock reading of the \<open>IsUp\<close> call inside.
\<close>

definition Update :: "GroupState \<Rightarrow> Time \<Rightarrow> Time \<Rightarrow> bool \<times> GroupState" where
  "Update gs ts now =
     (let wasUp = up gs;
          gs1 = (if Time_After ts (timestamp gs) \<and> \<not> Time_IsZero (timestamp gs)
                 then let delta = Time_Sub ts (timestamp gs)
                      in gs\<lparr>timeout := dur_add delta (dur_quot delta 2)\<rparr>
                 else gs);
          gs2 = gs1\<lparr>timestamp := ts\<rparr>;
          gs3 = gs2\<lparr>up := IsUp gs2 now\<rparr>
      in (wasUp \<noteq> up gs3, gs3))"

section \<open>Package pushgateway: metrics groups\<close>

text \<open>
  A Go map is modelled by an association list with distinct keys: the order of the list
  is the (arbitrary) iteration order of the map, \<open>map_of\<close> is the lookup and the length
  is \<open>len\<close>. A nil map reads as the empty list.
\<close>

datatype error = MissingJobLabel | EmptyList

record Metric =
  Timestamp :: Time

type_synonym Labels = "(string \<times> string) list"
type_synonym Metrics = "(string \<times> Metric) list"

record MetricsGroup =
  Labels :: Labels
  Metrics :: Metrics

text \<open>\<open>strings.Join\<close>.\<close>

fun Join :: "string list \<Rightarrow> string \<Rightarrow> string" where
  "Join [] sep = []"
| "Join [x] sep = x"
| "Join (x # y # ys) sep = x @ sep @ Join (y # ys) sep"

text \<open>Indexing a map of strings: the empty string for a missing key.\<close>

definition label_at :: "Labels \<Rightarrow> string \<Rightarrow> string" where
  "label_at l name = (case map_of l name of None \<Rightarrow> [] | Some v \<Rightarrow> v)"

text \<open>\<open>Key\<close> panics when the job label is missing: the panic is the \<open>Inl\<close> result.\<close>

definition Key :: "MetricsGroup \<Rightarrow> error + string" where
  "Key g =
     (case map_of (Labels g) ''job'' of
        None \<Rightarrow> Inl MissingJobLabel
      | Some job \<Rightarrow>
          let names = filter (\<lambda>name. name \<noteq> ''job'') (map fst (Labels g));
              sorted_names = sort names;
              parts = [''job'', job]
                      @ concat (map (\<lambda>name. [name, label_at (Labels g) name]) sorted_names)
          in Inr (Join parts ''/''))"

fun all_present :: "Labels \<Rightarrow> string list \<Rightarrow> bool" where
  "all_present l [] = True"
| "all_present l (name # names) =
     (case map_of l name of None \<Rightarrow> False | Some v \<Rightarrow> all_present l names)"

definition LabelNamesMatch :: "MetricsGroup \<Rightarrow> string list \<Rightarrow> bool" where
  "LabelNamesMatch g names =
     (if all_present (Labels g) names then length (Labels g) = length names else False)"

definition Filter :: "Metrics \<Rightarrow> string list \<Rightarrow> Metrics" where
  "Filter m names = filter (\<lambda>(name, metric). name \<notin> set names) m"

definition Time_Compare :: "Time \<Rightarrow> Time \<Rightarrow> int" where
  "Time_Compare t u = (if t < u then - 1 else if u < t then 1 else 0)"

text \<open>\<open>slices.MaxFunc\<close> and \<open>slices.MinFunc\<close> with \<open>Time.Compare\<close>; both panic on an empty slice.\<close>

fun MaxFunc :: "Time list \<Rightarrow> error + Time" where
  "MaxFunc [] = Inl EmptyList"
| "MaxFunc (x # xs) = Inr (foldl (\<lambda>m y. if 0 < Time_Compare y m then y else m) x xs)"

fun MinFunc :: "Time list \<Rightarrow> error + Time" where
  "MinFunc [] = Inl EmptyList"
| "MinFunc (x # xs) = Inr (foldl (\<lambda>m y. if Time_Compare y m < 0 then y else m) x xs)"

definition MaxTimestamp :: "Metrics \<Rightarrow> error + Time" where
  "MaxTimestamp m =
     (if length m = 0 then Inr 0
      else MaxFunc (map (\<lambda>(name, metric). Timestamp metric) m))"

definition MinTimestamp :: "Metrics \<Rightarrow> error + Time" where
  "MinTimestamp m =
     (if length m = 0 then Inr 0
      else MinFunc (map (\<lambda>(name, metric). Timestamp metric) m))"

section \<open>The reconciliation loop of main\<close>

text \<open>
  What one tick does after a successful query. The requests sent to the Pushgateway
  (\<open>DeleteCall\<close>, \<open>UpsetCall\<close>) and the log lines are recorded in order; the outcome of a
  request changes nothing but a further log line, which is left out. A tick reads the
  clock several times: \<open>clock n\<close> is the n-th reading of \<open>time.Now\<close> in the tick, and
  \<open>reads\<close> counts the readings made so far.
\<close>

datatype event =
    LogAdded string
  | LogExpired string
  | DeleteCall string
  | LogUp string
  | LogDown string
  | UpsetCall string bool
  | LogRemoved string

record tick_state =
  states :: "(string \<times> GroupState) list"
  receivedKeys :: "string list"
  events :: "event list"
  reads :: nat

definition filtered_names :: "string list" where
  "filtered_names = [''up'', ''push_time_seconds'', ''push_failure_time_seconds'']"

definition process_group ::
    "Time \<Rightarrow> (nat \<Rightarrow> Time) \<Rightarrow> tick_state \<Rightarrow> MetricsGroup \<Rightarrow> error + tick_state" where
  "process_group expirationTime clock s grp =
     (if \<not> LabelNamesMatch grp [''job'', ''instance''] then Inr s
      else case Key grp of
        Inl e \<Rightarrow> Inl e
      | Inr key \<Rightarrow>
          let s1 = s\<lparr>receivedKeys := receivedKeys s @ [key]\<rparr>;
              metrics = Filter (Metrics grp) filtered_names
          in case MinTimestamp metrics of
            Inl e \<Rightarrow> Inl e
          | Inr ts \<Rightarrow>
              (case map_of (states s1) key of
                 None \<Rightarrow>
                   Inr (s1\<lparr>states := AList.update key (NewGroupState ts) (states s1),
                           events := events s1 @ [LogAdded key]\<rparr>)
               | Some state \<Rightarrow>
                   (case MaxTimestamp (Metrics grp) of
                      Inl e \<Rightarrow> Inl e
                    | Inr newest \<Rightarrow>
                        if Time_Before newest expirationTime
                        then Inr (s1\<lparr>states := AList.delete key (states s1),
                                     events := events s1 @ [LogExpired key, DeleteCall key]\<rparr>)
                        else
                          let r = Update state ts (clock (reads s1));
                              s2 = s1\<lparr>states := AList.update key (snd r) (states s1),
                                      reads := Suc (reads s1)\<rparr>
                          in if fst r
                             then let isup = IsUp (snd r) (clock (reads s2))
                                  in Inr (s2\<lparr>reads := Suc (reads s2),
                                             events := events s2
                                               @ [if isup then LogUp key else LogDown key,
                                                  UpsetCall key isup]\<rparr>)
                             else Inr s2)))"

fun process_groups ::
    "Time \<Rightarrow> (nat \<Rightarrow> Time) \<Rightarrow> tick_state \<Rightarrow> MetricsGroup list \<Rightarrow> error + tick_state" where
  "process_groups expirationTime clock s [] = Inr s"
| "process_groups expirationTime clock s (grp # groups) =
     (case process_group expirationTime clock s grp of
        Inl e \<Rightarrow> Inl e
      | Inr s' \<Rightarrow> process_groups expirationTime clock s' groups)"

text \<open>
  The closing loop over the keys of \<open>states\<close>, here in the order of the list (the order
  of a Go map is arbitrary; it only shows in the order of the log lines).
\<close>

fun remove_missing :: "string list \<Rightarrow> tick_state \<Rightarrow> tick_state" where
  "remove_missing [] s = s"
| "remove_missing (key # keys) s =
     remove_missing keys
       (if key \<notin> set (receivedKeys s)
        then s\<lparr>states := AList.delete key (states s), events := events s @ [LogRemoved key]\<rparr>
        else s)"

definition start_state :: "(string \<times> GroupState) list \<Rightarrow> tick_state" where
  "start_state states0 = \<lparr>states = states0, receivedKeys = [], events = [], reads = 1\<rparr>"

definition tick ::
    "Duration \<Rightarrow> (nat \<Rightarrow> Time) \<Rightarrow> (string \<times> GroupState) list \<Rightarrow> MetricsGroup list
     \<Rightarrow> error + tick_state" where
  "tick groupTTL clock states0 groups =
     (let expirationTime = Time_Add (clock 0) (dur_neg groupTTL);
          s0 = start_state states0
      in case process_groups expirationTime clock s0 groups of
           Inl e \<Rightarrow> Inl e
         | Inr s \<Rightarrow> Inr (remove_missing (map fst (states s)) s))"

text \<open>The key under which a group of the snapshot is received, if it is tracked at all.\<close>

definition received_key :: "MetricsGroup \<Rightarrow> string option" where
  "received_key g =
     (if LabelNamesMatch g [''job'', ''instance'']
      then (case Key g of Inl e \<Rightarrow> None | Inr key \<Rightarrow> Some key)
      else None)"

section \<open>Vocabulary of the proofs\<close>

text \<open>The key an event is about.\<close>

fun event_key :: "event \<Rightarrow> string" where
  "event_key (LogAdded key) = key"
| "event_key (LogExpired key) = key"
| "event_key (DeleteCall key) = key"
| "event_key (LogUp key) = key"
| "event_key (LogDown key) = key"
| "event_key (UpsetCall key b) = key"
| "event_key (LogRemoved key) = key"

text \<open>
  What every step of the loop over the groups guarantees: it records the key of a tracked
  group, leaves the detectors of all other keys alone, and only adds events about its
  own key.
\<close>

definition step_ok :: "tick_state \<Rightarrow> MetricsGroup \<Rightarrow> tick_state \<Rightarrow> bool" where
  "step_ok s g s' =
     (receivedKeys s' = receivedKeys s @ (case received_key g of None \<Rightarrow> [] | Some key \<Rightarrow> [key])
      \<and> (\<forall>key. received_key g \<noteq> Some key \<longrightarrow> map_of (states s') key = map_of (states s) key)
      \<and> (\<exists>new. events s' = events s @ new
                 \<and> (\<forall>ev\<in>set new. received_key g = Some (event_key ev) \<and> (\<forall>k. ev \<noteq> LogRemoved k))))"

section \<open>The liveness detector\<close>

lemma wrap64_id: "- (2 ^ 63) \<le> x \<Longrightarrow> x < 2 ^ 63 \<Longrightarrow> wrap64 x = x"
  unfolding wrap64_def by simp

lemma trunc_quot_2_nonneg: "0 \<le> a \<Longrightarrow> trunc_quot a 2 = a div 2"
  unfolding trunc_quot_def by (cases "a = 0") simp_all

lemma Update_timestamp: "timestamp (snd (Update gs ts now)) = ts"
  by (simp add: Update_def Let_def)

lemma Update_timeout_else:
  "\<not> (timestamp gs < ts \<and> timestamp gs \<noteq> 0) \<Longrightarrow> timeout (snd (Update gs ts now)) = timeout gs"
  by (auto simp add: Update_def Let_def Time_After_def Time_IsZero_def)

lemma Update_timeout_then:
  "timestamp gs < ts \<Longrightarrow> timestamp gs \<noteq> 0 \<Longrightarrow>
   timeout (snd (Update gs ts now)) =
     wrap64 (min (ts - timestamp gs) maxDuration + min (ts - timestamp gs) maxDuration div 2)"
proof -
  assume lt: "timestamp gs < ts" and nz: "timestamp gs \<noteq> 0"
  define d where "d = min (ts - timestamp gs) maxDuration"
  have sub: "Time_Sub ts (timestamp gs) = d"
    using lt unfolding Time_Sub_def d_def minDuration_def maxDuration_def by auto
  have pos: "0 \<le> d" "d < 2 ^ 63"
    using lt unfolding d_def maxDuration_def by auto
  have half: "dur_quot d 2 = d div 2"
    unfolding dur_quot_def using pos by (simp add: trunc_quot_2_nonneg wrap64_id)
  have "timeout (snd (Update gs ts now)) = dur_add d (dur_quot d 2)"
    using lt nz by (simp add: Update_def Let_def Time_After_def Time_IsZero_def sub)
  then have "timeout (snd (Update gs ts now)) = wrap64 (d + d div 2)"
    by (simp add: half dur_add_def)
  then show ?thesis
    unfolding d_def .
qed

lemma Update_timeout_exact:
  assumes "timestamp gs < ts" and "timestamp gs \<noteq> 0"
    and "ts - timestamp gs \<le> 6148914691236517205"
  shows "timeout (snd (Update gs ts now)) = (ts - timestamp gs) + (ts - timestamp gs) div 2"
proof -
  have m: "min (ts - timestamp gs) maxDuration = ts - timestamp gs"
    using assms(3) unfolding maxDuration_def by simp
  have "wrap64 ((ts - timestamp gs) + (ts - timestamp gs) div 2)
        = (ts - timestamp gs) + (ts - timestamp gs) div 2"
    using assms(1,3) by (intro wrap64_id) simp_all
  then show ?thesis
    using Update_timeout_then [OF assms(1,2), of now] unfolding m by simp
qed

lemma IsUp_iff:
  "IsUp gs now = (timestamp gs \<noteq> 0 \<and> timeout gs \<noteq> 0 \<and> now < timestamp gs + timeout gs)"
  by (simp add: IsUp_def Let_def Time_IsZero_def Time_Add_def Time_Before_def)

lemma Update_up: "up (snd (Update gs ts now)) = IsUp (snd (Update gs ts now)) now"
  by (simp add: Update_def Let_def IsUp_def)

lemma Update_changed: "fst (Update gs ts now) = (up gs \<noteq> up (snd (Update gs ts now)))"
  by (simp add: Update_def Let_def)

subsection \<open>Claim C1\<close>

text \<open>
  C1 (as amended). \<open>Update\<close> always stores the new timestamp. When the new timestamp is
  strictly after the stored one and the stored one is not the zero Time, the new timeout
  is \<open>delta + delta / 2\<close> computed in signed 64-bit arithmetic, where \<open>delta\<close> is the
  difference of the two timestamps saturated at the largest Duration; this is the exact
  value \<open>delta + delta div 2\<close> whenever the difference is at most 6148914691236517205
  nanoseconds (about 195 years). In every other case the timeout is unchanged.
\<close>

theorem Update_timeout_and_timestamp:
  "timestamp (snd (Update gs ts now)) = ts
   \<and> (timestamp gs < ts \<and> timestamp gs \<noteq> 0 \<longrightarrow>
        timeout (snd (Update gs ts now)) =
          wrap64 (min (ts - timestamp gs) maxDuration
                  + min (ts - timestamp gs) maxDuration div 2))
   \<and> (timestamp gs < ts \<and> timestamp gs \<noteq> 0 \<and> ts - timestamp gs \<le> 6148914691236517205 \<longrightarrow>
        timeout (snd (Update gs ts now)) = (ts - timestamp gs) + (ts - timestamp gs) div 2)
   \<and> (\<not> (timestamp gs < ts \<and> timestamp gs \<noteq> 0) \<longrightarrow>
        timeout (snd (Update gs ts now)) = timeout gs)"
  using Update_timestamp Update_timeout_then Update_timeout_exact Update_timeout_else
  by blast

theorem Update_timeout_and_timestamp_witness:
  "timestamp \<lparr>up = False, timestamp = 100, timeout = 0\<rparr> < (160 :: int)
   \<and> timestamp \<lparr>up = False, timestamp = 100, timeout = 0\<rparr> \<noteq> 0
   \<and> (160 :: int) - timestamp \<lparr>up = False, timestamp = 100, timeout = 0\<rparr> \<le> 6148914691236517205
   \<and> timeout (snd (Update \<lparr>up = False, timestamp = 100, timeout = 0\<rparr> 160 170)) = 90
   \<and> timestamp (snd (Update \<lparr>up = False, timestamp = 100, timeout = 0\<rparr> 160 170)) = 160
   \<and> \<not> (timestamp \<lparr>up = True, timestamp = 160, timeout = 90\<rparr> < (160 :: int)
        \<and> timestamp \<lparr>up = True, timestamp = 160, timeout = 90\<rparr> \<noteq> 0)
   \<and> timeout (snd (Update \<lparr>up = True, timestamp = 160, timeout = 90\<rparr> 160 170)) = 90"
  using Update_timeout_and_timestamp [of "\<lparr>up = False, timestamp = 100, timeout = 0\<rparr>" 160 170]
    Update_timeout_and_timestamp [of "\<lparr>up = True, timestamp = 160, timeout = 90\<rparr>" 160 170]
  by simp

text \<open>
  The stored timestamp is 1800-01-01T00:00:00Z and the new one 2024-01-01T00:00:00Z
  (in nanoseconds since the zero Time): the sum \<open>delta + delta / 2\<close> leaves the range of
  a Duration and the stored timeout is negative, not one and a half times the interval.
\<close>

theorem Update_timeout_counterexample:
  "timestamp \<lparr>up = False, timestamp = 56770934400000000000, timeout = 0\<rparr>
     < (63839664000000000000 :: int)
   \<and> timestamp \<lparr>up = False, timestamp = 56770934400000000000, timeout = 0\<rparr> \<noteq> 0
   \<and> timeout (snd (Update \<lparr>up = False, timestamp = 56770934400000000000, timeout = 0\<rparr>
                     63839664000000000000 63839664000000000000))
       = - 7843649673709551616
   \<and> timeout (snd (Update \<lparr>up = False, timestamp = 56770934400000000000, timeout = 0\<rparr>
                     63839664000000000000 63839664000000000000))
       \<noteq> (63839664000000000000 - 56770934400000000000)
          + (63839664000000000000 - 56770934400000000000) div 2"
  by (simp add: Update_def Let_def Time_After_def Time_IsZero_def Time_Sub_def
      maxDuration_def minDuration_def dur_add_def dur_quot_def trunc_quot_def wrap64_def)

subsection \<open>Claim C2\<close>

text \<open>
  C2. \<open>IsUp\<close> at the instant \<open>now\<close> is false when the stored timestamp is the zero Time
  or the timeout is zero; otherwise it is true exactly when \<open>now\<close> is before the stored
  timestamp plus the timeout. In particular, in that case and with a positive timeout, it
  is true at \<open>now\<close> equal to the stored timestamp, and it is false at the stored timestamp
  plus the timeout and at every later instant.
\<close>

theorem IsUp_rule:
  "(timestamp gs = 0 \<or> timeout gs = 0 \<longrightarrow> \<not> IsUp gs now)
   \<and> (timestamp gs \<noteq> 0 \<and> timeout gs \<noteq> 0 \<longrightarrow>
        IsUp gs now = (now < timestamp gs + timeout gs))
   \<and> (timestamp gs \<noteq> 0 \<and> 0 < timeout gs \<longrightarrow> IsUp gs (timestamp gs))
   \<and> (timestamp gs + timeout gs \<le> now \<longrightarrow> \<not> IsUp gs now)"
  by (auto simp add: IsUp_iff)

theorem IsUp_rule_witness:
  "\<not> IsUp \<lparr>up = False, timestamp = 0, timeout = 90\<rparr> 10
   \<and> \<not> IsUp \<lparr>up = False, timestamp = 160, timeout = 0\<rparr> 160
   \<and> IsUp \<lparr>up = False, timestamp = 160, timeout = 90\<rparr> 249
   \<and> IsUp \<lparr>up = False, timestamp = 160, timeout = 90\<rparr> 160
   \<and> \<not> IsUp \<lparr>up = False, timestamp = 160, timeout = 90\<rparr> 250
   \<and> \<not> IsUp \<lparr>up = False, timestamp = 160, timeout = 90\<rparr> 251"
  using IsUp_rule [of "\<lparr>up = False, timestamp = 0, timeout = 90\<rparr>" 10]
    IsUp_rule [of "\<lparr>up = False, timestamp = 160, timeout = 0\<rparr>" 160]
    IsUp_rule [of "\<lparr>up = False, timestamp = 160, timeout = 90\<rparr>" 249]
    IsUp_rule [of "\<lparr>up = False, timestamp = 160, timeout = 90\<rparr>" 160]
    IsUp_rule [of "\<lparr>up = False, timestamp = 160, timeout = 90\<rparr>" 250]
    IsUp_rule [of "\<lparr>up = False, timestamp = 160, timeout = 90\<rparr>" 251]
  by simp

subsection \<open>Claim C3\<close>

lemma Update_state:
  "snd (Update gs ts now) =
     \<lparr>up = IsUp \<lparr>up = up gs, timestamp = ts,
                 timeout = (if timestamp gs < ts \<and> timestamp gs \<noteq> 0
                            then dur_add (Time_Sub ts (timestamp gs))
                                   (dur_quot (Time_Sub ts (timestamp gs)) 2)
                            else timeout gs)\<rparr> now,
      timestamp = ts,
      timeout = (if timestamp gs < ts \<and> timestamp gs \<noteq> 0
                 then dur_add (Time_Sub ts (timestamp gs))
                        (dur_quot (Time_Sub ts (timestamp gs)) 2)
                 else timeout gs)\<rparr>"
  by (simp add: Update_def Let_def Time_After_def Time_IsZero_def IsUp_def)

text \<open>
  C3. \<open>Update\<close> recomputes the verdict with the rule of \<open>IsUp\<close> on the detector holding
  the timestamp it was given and the timeout it has just settled (the new one when the
  timestamp is strictly after a stored non-zero timestamp, the old one otherwise): the
  verdict is true exactly when that timestamp is not the zero Time, that timeout is not
  zero and the clock reading is before their sum. The call stores this verdict in \<open>up\<close>
  and returns true exactly when it differs from the verdict stored before the call. On
  the first call after \<open>NewGroupState\<close> the previous verdict is false, so the call returns
  the new verdict: false when it stays false.
\<close>

theorem Update_verdict:
  "(let new_timeout = (if timestamp gs < ts \<and> timestamp gs \<noteq> 0
                       then dur_add (Time_Sub ts (timestamp gs))
                              (dur_quot (Time_Sub ts (timestamp gs)) 2)
                       else timeout gs);
        verdict = IsUp \<lparr>up = up gs, timestamp = ts, timeout = new_timeout\<rparr> now
    in snd (Update gs ts now) = \<lparr>up = verdict, timestamp = ts, timeout = new_timeout\<rparr>
       \<and> verdict = (ts \<noteq> 0 \<and> new_timeout \<noteq> 0 \<and> now < ts + new_timeout)
       \<and> fst (Update gs ts now) = (verdict \<noteq> up gs))
   \<and> up (snd (Update gs ts now)) = IsUp (snd (Update gs ts now)) now
   \<and> fst (Update gs ts now) = (up (snd (Update gs ts now)) \<noteq> up gs)
   \<and> fst (Update (NewGroupState ts0) ts now) = up (snd (Update (NewGroupState ts0) ts now))
   \<and> fst (Update (NewGroupState ts0) ts now)
       = IsUp \<lparr>up = False, timestamp = ts,
                timeout = (if ts0 < ts \<and> ts0 \<noteq> 0
                           then dur_add (Time_Sub ts ts0) (dur_quot (Time_Sub ts ts0) 2)
                           else 0)\<rparr> now"
proof -
  have st: "up (snd (Update gs ts now))
            = IsUp \<lparr>up = up gs, timestamp = ts,
                     timeout = (if timestamp gs < ts \<and> timestamp gs \<noteq> 0
                                then dur_add (Time_Sub ts (timestamp gs))
                                       (dur_quot (Time_Sub ts (timestamp gs)) 2)
                                else timeout gs)\<rparr> now"
    by (simp add: Update_state)
  have a: "let new_timeout = (if timestamp gs < ts \<and> timestamp gs \<noteq> 0
                       then dur_add (Time_Sub ts (timestamp gs))
                              (dur_quot (Time_Sub ts (timestamp gs)) 2)
                       else timeout gs);
        verdict = IsUp \<lparr>up = up gs, timestamp = ts, timeout = new_timeout\<rparr> now
    in snd (Update gs ts now) = \<lparr>up = verdict, timestamp = ts, timeout = new_timeout\<rparr>
       \<and> verdict = (ts \<noteq> 0 \<and> new_timeout \<noteq> 0 \<and> now < ts + new_timeout)
       \<and> fst (Update gs ts now) = (verdict \<noteq> up gs)"
    unfolding Let_def
  proof (intro conjI)
    show "snd (Update gs ts now) =
     \<lparr>up = IsUp \<lparr>up = up gs, timestamp = ts,
                 timeout = (if timestamp gs < ts \<and> timestamp gs \<noteq> 0
                            then dur_add (Time_Sub ts (timestamp gs))
                                   (dur_quot (Time_Sub ts (timestamp gs)) 2)
                            else timeout gs)\<rparr> now,
      timestamp = ts,
      timeout = (if timestamp gs < ts \<and> timestamp gs \<noteq> 0
                 then dur_add (Time_Sub ts (timestamp gs))
                        (dur_quot (Time_Sub ts (timestamp gs)) 2)
                 else timeout gs)\<rparr>"
      by (rule Update_state)
  next
    show "IsUp \<lparr>up = up gs, timestamp = ts,
                 timeout = (if timestamp gs < ts \<and> timestamp gs \<noteq> 0
                            then dur_add (Time_Sub ts (timestamp gs))
                                   (dur_quot (Time_Sub ts (timestamp gs)) 2)
                            else timeout gs)\<rparr> now
          = (ts \<noteq> 0
             \<and> (if timestamp gs < ts \<and> timestamp gs \<noteq> 0
                 then dur_add (Time_Sub ts (timestamp gs))
                        (dur_quot (Time_Sub ts (timestamp gs)) 2)
                 else timeout gs) \<noteq> 0
             \<and> now < ts + (if timestamp gs < ts \<and> timestamp gs \<noteq> 0
                 then dur_add (Time_Sub ts (timestamp gs))
                        (dur_quot (Time_Sub ts (timestamp gs)) 2)
                 else timeout gs))"
      by (simp only: IsUp_iff GroupState.simps)
  next
    show "fst (Update gs ts now)
          = (IsUp \<lparr>up = up gs, timestamp = ts,
                 timeout = (if timestamp gs < ts \<and> timestamp gs \<noteq> 0
                            then dur_add (Time_Sub ts (timestamp gs))
                                   (dur_quot (Time_Sub ts (timestamp gs)) 2)
                            else timeout gs)\<rparr> now \<noteq> up gs)"
      using Update_changed [of gs ts now] unfolding st by auto
  qed
  have b: "up (snd (Update gs ts now)) = IsUp (snd (Update gs ts now)) now"
    by (rule Update_up)
  have c: "fst (Update gs ts now) = (up (snd (Update gs ts now)) \<noteq> up gs)"
    using Update_changed [of gs ts now] by auto
  have d: "fst (Update (NewGroupState ts0) ts now) = up (snd (Update (NewGroupState ts0) ts now))"
    using Update_changed [of "NewGroupState ts0" ts now] by (simp add: NewGroupState_def)
  have e: "fst (Update (NewGroupState ts0) ts now)
       = IsUp \<lparr>up = False, timestamp = ts,
                timeout = (if ts0 < ts \<and> ts0 \<noteq> 0
                           then dur_add (Time_Sub ts ts0) (dur_quot (Time_Sub ts ts0) 2)
                           else 0)\<rparr> now"
    unfolding d by (simp add: Update_state NewGroupState_def)
  show ?thesis
    using a b c d e by (intro conjI)
qed

theorem Update_verdict_witness:
  "Update \<lparr>up = False, timestamp = 100, timeout = 0\<rparr> 160 170
     = (True, \<lparr>up = True, timestamp = 160, timeout = 90\<rparr>)
   \<and> Update \<lparr>up = True, timestamp = 160, timeout = 90\<rparr> 160 170
     = (False, \<lparr>up = True, timestamp = 160, timeout = 90\<rparr>)
   \<and> Update \<lparr>up = True, timestamp = 160, timeout = 90\<rparr> 160 250
     = (True, \<lparr>up = False, timestamp = 160, timeout = 90\<rparr>)
   \<and> Update (NewGroupState 100) 100 170
     = (False, \<lparr>up = False, timestamp = 100, timeout = 0\<rparr>)"
proof -
  have ar: "dur_add (Time_Sub 160 100) (dur_quot (Time_Sub 160 100) 2) = 90"
    by (simp add: dur_add_def dur_quot_def Time_Sub_def trunc_quot_def wrap64_def
        minDuration_def maxDuration_def)
  have A: "Update \<lparr>up = False, timestamp = 100, timeout = 0\<rparr> 160 170
           = (True, \<lparr>up = True, timestamp = 160, timeout = 90\<rparr>)"
    using Update_verdict [of "\<lparr>up = False, timestamp = 100, timeout = 0\<rparr>" 160 170 0]
    by (simp add: Let_def ar prod_eq_iff)
  have B: "Update \<lparr>up = True, timestamp = 160, timeout = 90\<rparr> 160 170
           = (False, \<lparr>up = True, timestamp = 160, timeout = 90\<rparr>)"
    using Update_verdict [of "\<lparr>up = True, timestamp = 160, timeout = 90\<rparr>" 160 170 0]
    by (simp add: Let_def prod_eq_iff)
  have C: "Update \<lparr>up = True, timestamp = 160, timeout = 90\<rparr> 160 250
           = (True, \<lparr>up = False, timestamp = 160, timeout = 90\<rparr>)"
    using Update_verdict [of "\<lparr>up = True, timestamp = 160, timeout = 90\<rparr>" 160 250 0]
    by (simp add: Let_def prod_eq_iff)
  have D: "Update (NewGroupState 100) 100 170
           = (False, \<lparr>up = False, timestamp = 100, timeout = 0\<rparr>)"
    using Update_verdict [of "NewGroupState 100" 100 170 100]
    by (simp add: Let_def prod_eq_iff NewGroupState_def)
  show ?thesis using A B C D by simp
qed

section \<open>Group keys and label shapes\<close>

lemma sort_distinct_names:
  "distinct xs \<Longrightarrow> sort xs = sorted_list_of_set (set xs)"
  by (simp add: sorted_list_of_set_sort_remdups distinct_remdups_id)

lemma label_at_map_of: "map_of l1 = map_of l2 \<Longrightarrow> label_at l1 = label_at l2"
  by (rule ext) (simp add: label_at_def)

lemma other_names_set:
  "set (filter (\<lambda>name. name \<noteq> ''job'') (map fst l)) = dom (map_of l) - {''job''}"
  by (auto simp add: dom_map_of_conv_image_fst)

lemma Key_explicit:
  assumes "distinct (map fst (Labels g))"
  shows "Key g =
     (case map_of (Labels g) ''job'' of
        None \<Rightarrow> Inl MissingJobLabel
      | Some job \<Rightarrow>
          Inr (Join ([''job'', job]
                     @ concat (map (\<lambda>name. [name, the (map_of (Labels g) name)])
                                 (sorted_list_of_set (dom (map_of (Labels g)) - {''job''}))))
                 ''/''))"
proof -
  let ?names = "filter (\<lambda>name. name \<noteq> ''job'') (map fst (Labels g))"
  have d: "distinct ?names" using assms by (rule distinct_filter)
  have s: "sort ?names = sorted_list_of_set (dom (map_of (Labels g)) - {''job''})"
    using sort_distinct_names [OF d] by (simp only: other_names_set)
  have fin: "finite (dom (map_of (Labels g)) - {''job''})" by (simp add: finite_dom_map_of)
  have v: "map (\<lambda>name. [name, label_at (Labels g) name])
             (sorted_list_of_set (dom (map_of (Labels g)) - {''job''}))
         = map (\<lambda>name. [name, the (map_of (Labels g) name)])
             (sorted_list_of_set (dom (map_of (Labels g)) - {''job''}))"
    using fin by (intro map_cong refl) (auto simp add: label_at_def)
  show ?thesis
    unfolding Key_def Let_def s v by (simp split: option.splits)
qed

lemma Key_order_independent:
  assumes "distinct (map fst (Labels g1))" "distinct (map fst (Labels g2))"
    and "map_of (Labels g1) = map_of (Labels g2)"
  shows "Key g1 = Key g2"
  unfolding Key_explicit [OF assms(1)] Key_explicit [OF assms(2)] assms(3) ..

section \<open>Label names, filtering and extreme timestamps\<close>

lemma in_keys_iff: "(name \<in> fst ` set l) = (map_of l name \<noteq> None)"
  by (simp add: map_of_eq_None_iff)

lemma all_present_iff: "all_present l names = (set names \<subseteq> fst ` set l)"
  by (induction names) (simp_all add: in_keys_iff split: option.splits)

lemma LabelNamesMatch_job_instance:
  assumes "distinct (map fst (Labels g))"
  shows "LabelNamesMatch g [''job'', ''instance'']
         = (set (map fst (Labels g)) = {''job'', ''instance''})"
proof -
  let ?ns = "map fst (Labels g)"
  have card: "card (set ?ns) = length (Labels g)"
    using distinct_card [OF assms] by simp
  have c2: "card {''job'', ''instance''} = 2" by simp
  show ?thesis
  proof
    assume "LabelNamesMatch g [''job'', ''instance'']"
    then have sub: "{''job'', ''instance''} \<subseteq> set ?ns" and len: "length (Labels g) = 2"
      by (auto simp add: LabelNamesMatch_def all_present_iff split: if_splits)
    have "card (set ?ns) \<le> card {''job'', ''instance''}"
      using card len c2 by simp
    then have "{''job'', ''instance''} = set ?ns"
      using sub by (intro card_seteq) simp_all
    then show "set ?ns = {''job'', ''instance''}" by simp
  next
    assume eq: "set ?ns = {''job'', ''instance''}"
    then have "length (Labels g) = 2" using card c2 by simp
    moreover have "all_present (Labels g) [''job'', ''instance'']"
      using eq by (simp add: all_present_iff)
    ultimately show "LabelNamesMatch g [''job'', ''instance'']"
      by (simp add: LabelNamesMatch_def)
  qed
qed

lemma process_group_skip:
  "\<not> LabelNamesMatch g [''job'', ''instance''] \<Longrightarrow> process_group e c s g = Inr s"
  by (simp add: process_group_def)

lemma Max_insert2:
  "finite S \<Longrightarrow> Max (insert (max a b) S) = Max (insert a (insert b S))" for a :: int
  by (cases "S = {}") (simp_all add: max.assoc)

lemma Min_insert2:
  "finite S \<Longrightarrow> Min (insert (min a b) S) = Min (insert a (insert b S))" for a :: int
  by (cases "S = {}") (simp_all add: min.assoc)

lemma foldl_max: "foldl (\<lambda>m y. if 0 < Time_Compare y m then y else m) x xs = Max (set (x # xs))"
proof (induction xs arbitrary: x)
  case Nil
  then show ?case by simp
next
  case (Cons y ys)
  have "(if 0 < Time_Compare y x then y else x) = max x y"
    by (simp add: Time_Compare_def max_def)
  then show ?case
    using Cons [of "max x y"] by (simp add: Max_insert2 del: Max_insert)
qed

lemma foldl_min: "foldl (\<lambda>m y. if Time_Compare y m < 0 then y else m) x xs = Min (set (x # xs))"
proof (induction xs arbitrary: x)
  case Nil
  then show ?case by simp
next
  case (Cons y ys)
  have "(if Time_Compare y x < 0 then y else x) = min x y"
    by (auto simp add: Time_Compare_def min_def)
  then show ?case
    using Cons [of "min x y"] by (simp add: Min_insert2 del: Min_insert)
qed

lemma MaxTimestamp_eq:
  "MaxTimestamp m = Inr (if m = [] then 0 else Max ((\<lambda>(name, metric). Timestamp metric) ` set m))"
proof (cases m)
  case Nil
  then show ?thesis by (simp add: MaxTimestamp_def)
next
  case (Cons p ps)
  have "MaxTimestamp m = Inr (Max (set (map (\<lambda>(name, metric). Timestamp metric) m)))"
    unfolding Cons by (simp add: MaxTimestamp_def foldl_max del: Max_insert)
  then show ?thesis using Cons by simp
qed

lemma MinTimestamp_eq:
  "MinTimestamp m = Inr (if m = [] then 0 else Min ((\<lambda>(name, metric). Timestamp metric) ` set m))"
proof (cases m)
  case Nil
  then show ?thesis by (simp add: MinTimestamp_def)
next
  case (Cons p ps)
  have "MinTimestamp m = Inr (Min (set (map (\<lambda>(name, metric). Timestamp metric) m)))"
    unfolding Cons by (simp add: MinTimestamp_def foldl_min del: Min_insert)
  then show ?thesis using Cons by simp
qed

lemma Filter_set: "set (Filter m names) = {(name, metric) \<in> set m. name \<notin> set names}"
  by (auto simp add: Filter_def)

lemma map_of_Filter:
  "map_of (Filter m names) name = (if name \<in> set names then None else map_of m name)"
  unfolding Filter_def by (induction m) auto

section \<open>One step of the reconciliation loop\<close>

lemma Key_total:
  assumes "LabelNamesMatch g [''job'', ''instance'']"
  shows "\<exists>key. Key g = Inr key"
proof -
  have "map_of (Labels g) ''job'' \<noteq> None"
    using assms by (auto simp add: LabelNamesMatch_def split: if_splits option.splits)
  then show ?thesis
    by (auto simp add: Key_def Let_def)
qed

lemma received_key_Some:
  "received_key g = Some key = (LabelNamesMatch g [''job'', ''instance''] \<and> Key g = Inr key)"
  by (auto simp add: received_key_def split: sum.splits)

lemma received_key_None:
  "received_key g = None = (\<not> LabelNamesMatch g [''job'', ''instance''])"
  using Key_total [of g] by (auto simp add: received_key_def split: sum.splits)

lemma process_group_added:
  assumes "received_key g = Some key"
    and "MinTimestamp (Filter (Metrics g) filtered_names) = Inr ts"
    and "map_of (states s) key = None"
  shows "process_group e c s g =
           Inr (s\<lparr>receivedKeys := receivedKeys s @ [key],
                   states := AList.update key (NewGroupState ts) (states s),
                   events := events s @ [LogAdded key]\<rparr>)"
  using assms by (simp add: process_group_def received_key_Some Let_def)

lemma process_group_expired:
  assumes "received_key g = Some key"
    and "map_of (states s) key = Some st"
    and "MaxTimestamp (Metrics g) = Inr newest"
    and "newest < e"
  shows "process_group e c s g =
           Inr (s\<lparr>receivedKeys := receivedKeys s @ [key],
                   states := AList.delete key (states s),
                   events := events s @ [LogExpired key, DeleteCall key]\<rparr>)"
  using assms
  by (simp add: process_group_def received_key_Some Let_def MinTimestamp_eq Time_Before_def)

lemma process_group_updated:
  assumes "received_key g = Some key"
    and "MinTimestamp (Filter (Metrics g) filtered_names) = Inr ts"
    and "map_of (states s) key = Some st"
    and "MaxTimestamp (Metrics g) = Inr newest"
    and "\<not> newest < e"
  shows "process_group e c s g =
           Inr (s\<lparr>receivedKeys := receivedKeys s @ [key],
                   states := AList.update key (snd (Update st ts (c (reads s)))) (states s),
                   reads := (if fst (Update st ts (c (reads s))) then reads s + 2 else reads s + 1),
                   events := events s @
                     (if fst (Update st ts (c (reads s)))
                      then [if IsUp (snd (Update st ts (c (reads s)))) (c (Suc (reads s)))
                            then LogUp key else LogDown key,
                            UpsetCall key (IsUp (snd (Update st ts (c (reads s)))) (c (Suc (reads s))))]
                      else [])\<rparr>)"
  using assms
  by (simp add: process_group_def received_key_Some Let_def Time_Before_def)

lemma process_group_effect: "\<exists>s'. process_group e c s g = Inr s' \<and> step_ok s g s'"
proof (cases "received_key g")
  case None
  then have "process_group e c s g = Inr s"
    by (simp add: received_key_None process_group_skip)
  then show ?thesis using None by (simp add: step_ok_def)
next
  case (Some key)
  obtain ts where ts: "MinTimestamp (Filter (Metrics g) filtered_names) = Inr ts"
    by (simp add: MinTimestamp_eq)
  obtain newest where newest: "MaxTimestamp (Metrics g) = Inr newest"
    by (simp add: MaxTimestamp_eq)
  show ?thesis
  proof (cases "map_of (states s) key")
    case None
    show ?thesis
      unfolding process_group_added [OF Some ts None]
      by (simp add: step_ok_def Some update_conv')
  next
    case (Some st)
    show ?thesis
    proof (cases "newest < e")
      case True
      show ?thesis
        unfolding process_group_expired [OF \<open>received_key g = Some key\<close> Some newest True]
        by (simp add: step_ok_def \<open>received_key g = Some key\<close> delete_conv')
    next
      case False
      show ?thesis
        unfolding process_group_updated [OF \<open>received_key g = Some key\<close> ts Some newest False]
        by (auto simp add: step_ok_def \<open>received_key g = Some key\<close> update_conv')
    qed
  qed
qed

lemma process_groups_append:
  "process_groups e c s (xs @ ys) =
     (case process_groups e c s xs of Inl err \<Rightarrow> Inl err | Inr s' \<Rightarrow> process_groups e c s' ys)"
  by (induction xs arbitrary: s) (simp_all split: sum.splits)

lemma process_groups_total: "\<exists>s'. process_groups e c s gs = Inr s'"
proof (induction gs arbitrary: s)
  case Nil
  show ?case by simp
next
  case (Cons g gs)
  obtain s1 where "process_group e c s g = Inr s1"
    using process_group_effect by blast
  then show ?case using Cons [of s1] by simp
qed

lemma process_groups_frame:
  assumes "process_groups e c s gs = Inr s'"
    and "\<forall>g\<in>set gs. received_key g \<noteq> Some key"
  shows "map_of (states s') key = map_of (states s) key
         \<and> filter (\<lambda>ev. event_key ev = key) (events s') = filter (\<lambda>ev. event_key ev = key) (events s)
         \<and> (key \<in> set (receivedKeys s')) = (key \<in> set (receivedKeys s))"
  using assms
proof (induction gs arbitrary: s)
  case Nil
  then show ?case by simp
next
  case (Cons g gs)
  obtain s1 where s1: "process_group e c s g = Inr s1" and ok: "step_ok s g s1"
    using process_group_effect by blast
  have rest: "process_groups e c s1 gs = Inr s'"
    using Cons.prems(1) s1 by simp
  have nk: "received_key g \<noteq> Some key" and nks: "\<forall>g\<in>set gs. received_key g \<noteq> Some key"
    using Cons.prems(2) by simp_all
  have a: "map_of (states s1) key = map_of (states s) key"
    using ok nk by (simp add: step_ok_def)
  obtain new where new: "events s1 = events s @ new"
      and keys: "\<forall>ev\<in>set new. received_key g = Some (event_key ev)"
    using ok unfolding step_ok_def by blast
  have "filter (\<lambda>ev. event_key ev = key) new = []"
    using keys nk by (auto simp add: filter_empty_conv)
  then have b: "filter (\<lambda>ev. event_key ev = key) (events s1) = filter (\<lambda>ev. event_key ev = key) (events s)"
    using new by simp
  have c: "(key \<in> set (receivedKeys s1)) = (key \<in> set (receivedKeys s))"
    using ok nk by (auto simp add: step_ok_def split: option.splits)
  show ?case
    using Cons.IH [OF rest nks] a b c by simp
qed

lemma process_groups_no_removed:
  assumes "process_groups e c s gs = Inr s'"
  shows "\<exists>new. events s' = events s @ new \<and> (\<forall>ev\<in>set new. \<forall>k. ev \<noteq> LogRemoved k)"
  using assms
proof (induction gs arbitrary: s)
  case Nil
  then show ?case by simp
next
  case (Cons g gs)
  obtain s1 where s1: "process_group e c s g = Inr s1" and ok: "step_ok s g s1"
    using process_group_effect by blast
  have rest: "process_groups e c s1 gs = Inr s'"
    using Cons.prems(1) s1 by simp
  obtain new1 where new1: "events s1 = events s @ new1" "\<forall>ev\<in>set new1. \<forall>k. ev \<noteq> LogRemoved k"
    using ok unfolding step_ok_def by blast
  obtain new2 where new2: "events s' = events s1 @ new2" "\<forall>ev\<in>set new2. \<forall>k. ev \<noteq> LogRemoved k"
    using Cons.IH [OF rest] by blast
  have "events s' = events s @ (new1 @ new2)" using new1 new2 by simp
  moreover have "\<forall>ev\<in>set (new1 @ new2). \<forall>k. ev \<noteq> LogRemoved k" using new1 new2 by auto
  ultimately show ?case by blast
qed

lemma remove_missing_receivedKeys: "receivedKeys (remove_missing ks s) = receivedKeys s"
  by (induction ks arbitrary: s) simp_all

lemma remove_missing_states:
  "map_of (states (remove_missing ks s)) key =
     (if key \<in> set ks \<and> key \<notin> set (receivedKeys s) then None else map_of (states s) key)"
  by (induction ks arbitrary: s) (auto simp add: delete_conv')

lemma remove_missing_events:
  "events (remove_missing ks s) =
     events s @ map LogRemoved (filter (\<lambda>key. key \<notin> set (receivedKeys s)) ks)"
  by (induction ks arbitrary: s) simp_all

section \<open>A whole tick\<close>

lemma dur_neg_exact: "minDuration < d \<Longrightarrow> d \<le> maxDuration \<Longrightarrow> dur_neg d = - d"
  unfolding dur_neg_def minDuration_def maxDuration_def by (intro wrap64_id) simp_all

lemma tick_eq:
  assumes "process_groups (clock 0 + dur_neg groupTTL) clock (start_state states0) groups = Inr s"
  shows "tick groupTTL clock states0 groups = Inr (remove_missing (map fst (states s)) s)"
  using assms by (simp add: tick_def Time_Add_def start_state_def)

lemma key_events_removed:
  "filter (\<lambda>ev. event_key ev = key) (map LogRemoved ks) = map LogRemoved (filter (\<lambda>k. k = key) ks)"
  by (induction ks) simp_all

lemma tick_vanished:
  assumes run: "process_groups e clock (start_state states0) groups = Inr s"
    and tracked: "map_of states0 key \<noteq> None"
    and absent: "\<forall>g\<in>set groups. received_key g \<noteq> Some key"
  shows "map_of (states (remove_missing (map fst (states s)) s)) key = None
         \<and> DeleteCall key \<notin> set (events (remove_missing (map fst (states s)) s))
         \<and> (\<forall>b. UpsetCall key b \<notin> set (events (remove_missing (map fst (states s)) s)))
         \<and> LogRemoved key \<in> set (events (remove_missing (map fst (states s)) s))"
proof -
  let ?s' = "remove_missing (map fst (states s)) s"
  let ?about = "\<lambda>ev. event_key ev = key"
  have fr: "map_of (states s) key = map_of states0 key"
      "filter ?about (events s) = []" "key \<notin> set (receivedKeys s)"
    using process_groups_frame [OF run absent] by (simp_all add: start_state_def)
  have inkeys: "key \<in> set (map fst (states s))"
    using fr(1) tracked by (simp add: in_keys_iff)
  have st: "map_of (states ?s') key = None"
    using inkeys fr(3) by (simp add: remove_missing_states)
  have ev: "filter ?about (events ?s')
            = map LogRemoved (filter (\<lambda>k. k = key)
                (filter (\<lambda>k. k \<notin> set (receivedKeys s)) (map fst (states s))))"
    by (simp add: remove_missing_events fr(2) key_events_removed)
  have only: "set (filter ?about (events ?s')) \<subseteq> {LogRemoved key}"
    unfolding ev by auto
  have nd: "DeleteCall key \<notin> set (events ?s')"
  proof
    assume "DeleteCall key \<in> set (events ?s')"
    then have "DeleteCall key \<in> set (filter ?about (events ?s'))" by simp
    then show False using only by auto
  qed
  have nu: "UpsetCall key b \<notin> set (events ?s')" for b
  proof
    assume "UpsetCall key b \<in> set (events ?s')"
    then have "UpsetCall key b \<in> set (filter ?about (events ?s'))" by simp
    then show False using only by auto
  qed
  have "LogRemoved key \<in> set (events ?s')"
    using inkeys fr(3) by (simp add: remove_missing_events)
  then show ?thesis using st nd nu by blast
qed

lemma count_list_filter: "P x \<Longrightarrow> count_list (filter P xs) x = count_list xs x"
  by (induction xs) auto

lemma tick_expired:
  assumes run: "process_groups e clock (start_state states0) (pre @ g # post) = Inr s"
    and tracked: "map_of states0 key \<noteq> None"
    and others: "\<forall>g'\<in>set pre \<union> set post. received_key g' \<noteq> Some key"
    and recv: "received_key g = Some key"
    and newest: "MaxTimestamp (Metrics g) = Inr newest" "newest < e"
  shows "map_of (states (remove_missing (map fst (states s)) s)) key = None
         \<and> filter (\<lambda>ev. event_key ev = key) (events (remove_missing (map fst (states s)) s))
             = [LogExpired key, DeleteCall key]"
proof -
  let ?s' = "remove_missing (map fst (states s)) s"
  let ?about = "\<lambda>ev. event_key ev = key"
  obtain s1 where s1: "process_groups e clock (start_state states0) pre = Inr s1"
    using process_groups_total by blast
  have rest: "process_groups e clock s1 (g # post) = Inr s"
    using run s1 by (simp add: process_groups_append)
  have fr1: "map_of (states s1) key = map_of states0 key" "filter ?about (events s1) = []"
    using process_groups_frame [OF s1] others by (simp_all add: start_state_def)
  obtain st where st: "map_of (states s1) key = Some st"
    using fr1(1) tracked by auto
  let ?s2 = "s1\<lparr>receivedKeys := receivedKeys s1 @ [key],
                 states := AList.delete key (states s1),
                 events := events s1 @ [LogExpired key, DeleteCall key]\<rparr>"
  have step: "process_group e clock s1 g = Inr ?s2"
    by (rule process_group_expired [OF recv st newest])
  have post: "process_groups e clock ?s2 post = Inr s"
    using rest step by simp
  have fr2: "map_of (states s) key = None"
      "filter ?about (events s) = [LogExpired key, DeleteCall key]"
      "key \<in> set (receivedKeys s)"
    using process_groups_frame [OF post, of key] others fr1(2)
    by (simp_all add: delete_conv')
  have a: "map_of (states ?s') key = None"
    using fr2(1) by (simp add: remove_missing_states)
  have "filter ?about (events ?s') = [LogExpired key, DeleteCall key]"
    using fr2(2,3) by (auto simp add: remove_missing_events key_events_removed filter_empty_conv)
  then show ?thesis using a by simp
qed

lemma tick_total: "\<exists>s'. tick groupTTL clock states0 groups = Inr s'"
proof -
  obtain s where "process_groups (clock 0 + dur_neg groupTTL) clock (start_state states0) groups = Inr s"
    using process_groups_total by blast
  then show ?thesis using tick_eq by blast
qed

section \<open>Keys of labels without the separator\<close>

text \<open>
  When no label name and no label value contains a slash, the key determines the label
  set: the parts of the key are recovered by splitting at the slashes.
\<close>

lemma no_sep_append_eq:
  assumes "c \<notin> set x" and "c \<notin> set y" and "x @ c # r = y @ c # r'"
  shows "x = y \<and> r = r'"
proof -
  have tw: "c \<notin> set z \<Longrightarrow> takeWhile (\<lambda>a. a \<noteq> c) (z @ c # t) = z" for z t
    by (induction z) auto
  have "takeWhile (\<lambda>a. a \<noteq> c) (x @ c # r) = takeWhile (\<lambda>a. a \<noteq> c) (y @ c # r')"
    by (simp only: assms(3))
  then have "x = y" by (simp only: tw [OF assms(1)] tw [OF assms(2)])
  then show ?thesis using assms(3) by simp
qed

lemma Join_Cons: "ys \<noteq> [] \<Longrightarrow> Join (x # ys) sep = x @ sep @ Join ys sep"
  by (cases ys) simp_all

lemma Join_inj:
  assumes "\<forall>x\<in>set xs. c \<notin> set x" and "\<forall>y\<in>set ys. c \<notin> set y"
    and "xs \<noteq> []" and "ys \<noteq> []" and "Join xs [c] = Join ys [c]"
  shows "xs = ys"
  using assms
proof (induction xs arbitrary: ys)
  case Nil
  then show ?case by simp
next
  case (Cons x xs)
  obtain y ys' where ys: "ys = y # ys'" using Cons.prems(4) by (cases ys) auto
  have nx: "c \<notin> set x" and ny: "c \<notin> set y" using Cons.prems(1,2) ys by simp_all
  show ?case
  proof (cases "xs = []")
    case True
    show ?thesis
    proof (cases "ys' = []")
      case True
      then show ?thesis using Cons.prems(5) ys \<open>xs = []\<close> by simp
    next
      case False
      have "x = y @ c # Join ys' [c]"
        using Cons.prems(5) ys \<open>xs = []\<close> False by (simp add: Join_Cons)
      then have "c \<in> set x" by simp
      then show ?thesis using nx by simp
    qed
  next
    case False
    show ?thesis
    proof (cases "ys' = []")
      case True
      have "y = x @ c # Join xs [c]"
        using Cons.prems(5) ys \<open>xs \<noteq> []\<close> True by (simp add: Join_Cons)
      then have "c \<in> set y" by simp
      then show ?thesis using ny by simp
    next
      case ne: False
      have "x @ c # Join xs [c] = y @ c # Join ys' [c]"
        using Cons.prems(5) ys False ne by (simp add: Join_Cons)
      then have "x = y" and j: "Join xs [c] = Join ys' [c]"
        using no_sep_append_eq [OF nx ny] by simp_all
      have "xs = ys'"
        using Cons.IH [OF _ _ False ne j] Cons.prems(1,2) ys by simp
      then show ?thesis using \<open>x = y\<close> ys by simp
    qed
  qed
qed

lemma concat_pairs_inj:
  "concat (map (\<lambda>n. [n, f n]) xs) = concat (map (\<lambda>n. [n, h n]) ys)
   \<Longrightarrow> xs = ys \<and> (\<forall>n\<in>set xs. f n = h n)"
proof (induction xs arbitrary: ys)
  case Nil
  then show ?case by (cases ys) simp_all
next
  case (Cons x xs)
  then show ?case by (cases ys) auto
qed


lemma Key_injective_without_separator:
  assumes d1: "distinct (map fst (Labels g1))" and d2: "distinct (map fst (Labels g2))"
    and s1: "\<forall>(name, v)\<in>set (Labels g1). CHR ''/'' \<notin> set name \<and> CHR ''/'' \<notin> set v"
    and s2: "\<forall>(name, v)\<in>set (Labels g2). CHR ''/'' \<notin> set name \<and> CHR ''/'' \<notin> set v"
    and k1: "Key g1 = Inr key" and k2: "Key g2 = Inr key"
  shows "set (Labels g1) = set (Labels g2)"
proof -
  define m1 where "m1 = map_of (Labels g1)"
  define m2 where "m2 = map_of (Labels g2)"
  define N1 where "N1 = sorted_list_of_set (dom m1 - {''job''})"
  define N2 where "N2 = sorted_list_of_set (dom m2 - {''job''})"
  define P1 where "P1 = concat (map (\<lambda>name. [name, the (m1 name)]) N1)"
  define P2 where "P2 = concat (map (\<lambda>name. [name, the (m2 name)]) N2)"
  obtain j1 where j1: "m1 ''job'' = Some j1" and key1: "key = Join ([''job'', j1] @ P1) ''/''"
    using k1 unfolding Key_explicit [OF d1] m1_def N1_def P1_def
    by (auto split: option.splits)
  obtain j2 where j2: "m2 ''job'' = Some j2" and key2: "key = Join ([''job'', j2] @ P2) ''/''"
    using k2 unfolding Key_explicit [OF d2] m2_def N2_def P2_def
    by (auto split: option.splits)
  have setN: "set N1 = dom m1 - {''job''}" "set N2 = dom m2 - {''job''}"
    unfolding N1_def N2_def m1_def m2_def by (simp_all add: finite_dom_map_of)
  have v1: "CHR ''/'' \<notin> set n \<and> CHR ''/'' \<notin> set v" if "m1 n = Some v" for n v
    using s1 map_of_SomeD [of "Labels g1" n v] that unfolding m1_def by auto
  have v2: "CHR ''/'' \<notin> set n \<and> CHR ''/'' \<notin> set v" if "m2 n = Some v" for n v
    using s2 map_of_SomeD [of "Labels g2" n v] that unfolding m2_def by auto
  have c1: "\<forall>x\<in>set ([''job'', j1] @ P1). CHR ''/'' \<notin> set x"
    using v1 [OF j1] v1 setN(1) unfolding P1_def by auto
  have c2: "\<forall>x\<in>set ([''job'', j2] @ P2). CHR ''/'' \<notin> set x"
    using v2 [OF j2] v2 setN(2) unfolding P2_def by auto
  have "Join ([''job'', j1] @ P1) [CHR ''/''] = Join ([''job'', j2] @ P2) [CHR ''/'']"
    using key1 key2 by simp
  then have parts: "[''job'', j1] @ P1 = [''job'', j2] @ P2"
    by (intro Join_inj [OF c1 c2]) simp_all
  then have j: "j1 = j2" and P: "P1 = P2" by simp_all
  have N: "N1 = N2" and vals: "\<forall>n\<in>set N1. the (m1 n) = the (m2 n)"
    using concat_pairs_inj [of "\<lambda>n. the (m1 n)" N1 "\<lambda>n. the (m2 n)" N2] P
    unfolding P1_def P2_def by simp_all
  have dom: "dom m1 = dom m2"
    using setN N j1 j2 by auto
  have "m1 n = m2 n" for n
  proof (cases "n = ''job''")
    case True
    then show ?thesis using j1 j2 j by simp
  next
    case False
    show ?thesis
    proof (cases "n \<in> dom m1")
      case True
      then have "n \<in> set N1" using setN(1) False by simp
      then have "the (m1 n) = the (m2 n)" using vals by simp
      moreover have "n \<in> dom m2" using True dom by simp
      ultimately show ?thesis using True by auto
    next
      case False
      then show ?thesis using dom by (auto simp add: domIff)
    qed
  qed
  then have "map_of (Labels g1) = map_of (Labels g2)"
    unfolding m1_def m2_def by (rule ext)
  then show ?thesis
    using d1 d2 by (simp add: map_of_inject_set)
qed

section \<open>Claims about group keys\<close>

subsection \<open>Claim C4\<close>

text \<open>
  C4. \<open>Key\<close> joins names and values with a plain slash and escapes nothing (the source
  notes \<open>TODO Base64 encoding\<close>). Two groups that both have exactly the labels job and
  instance, and whose job values differ, get the same key: the key does not determine
  the label set. (It does when no name and no value contains a slash, see
  \<open>Key_injective_without_separator\<close>.)
\<close>

theorem Key_collision:
  "LabelNamesMatch \<lparr>Labels = [(''job'', ''a/instance/b''), (''instance'', ''c'')], Metrics = []\<rparr>
     [''job'', ''instance'']
   \<and> LabelNamesMatch \<lparr>Labels = [(''job'', ''a''), (''instance'', ''b/instance/c'')], Metrics = []\<rparr>
     [''job'', ''instance'']
   \<and> Key \<lparr>Labels = [(''job'', ''a/instance/b''), (''instance'', ''c'')], Metrics = []\<rparr>
       = Inr ''job/a/instance/b/instance/c''
   \<and> Key \<lparr>Labels = [(''job'', ''a''), (''instance'', ''b/instance/c'')], Metrics = []\<rparr>
       = Inr ''job/a/instance/b/instance/c''
   \<and> map_of [(''job'', ''a/instance/b''), (''instance'', ''c'')] ''job''
       \<noteq> map_of [(''job'', ''a''), (''instance'', ''b/instance/c'')] ''job''"
  by (simp add: Key_def label_at_def LabelNamesMatch_def)

subsection \<open>Claim C7\<close>

text \<open>
  C7. Two label maps with the same name/value pairs, whatever their iteration order, get
  the same key: the job value first, then every other label name in lexicographic order,
  each followed by its value, joined by slashes. (Without a job label \<open>Key\<close> panics, for
  both maps alike.)
\<close>

theorem Key_same_pairs:
  assumes "distinct (map fst (Labels g1))" and "distinct (map fst (Labels g2))"
    and "set (Labels g1) = set (Labels g2)"
  shows "Key g1 = Key g2
         \<and> Key g1 =
            (case map_of (Labels g1) ''job'' of
               None \<Rightarrow> Inl MissingJobLabel
             | Some job \<Rightarrow>
                 Inr (Join ([''job'', job]
                            @ concat (map (\<lambda>name. [name, the (map_of (Labels g1) name)])
                                (sorted_list_of_set (dom (map_of (Labels g1)) - {''job''}))))
                        ''/''))"
proof -
  have "map_of (Labels g1) = map_of (Labels g2)"
    using assms by (simp add: map_of_inject_set)
  then have "Key g1 = Key g2"
    using assms(1,2) by (intro Key_order_independent)
  then show ?thesis
    using Key_explicit [OF assms(1)] by simp
qed

theorem Key_same_pairs_witness:
  "distinct (map fst (Labels \<lparr>Labels = [(''zone'', ''z''), (''job'', ''a''), (''instance'', ''b'')], Metrics = []\<rparr>))
   \<and> distinct (map fst (Labels \<lparr>Labels = [(''instance'', ''b''), (''zone'', ''z''), (''job'', ''a'')], Metrics = []\<rparr>))
   \<and> set (Labels \<lparr>Labels = [(''zone'', ''z''), (''job'', ''a''), (''instance'', ''b'')], Metrics = []\<rparr>)
       = set (Labels \<lparr>Labels = [(''instance'', ''b''), (''zone'', ''z''), (''job'', ''a'')], Metrics = []\<rparr>)
   \<and> Key \<lparr>Labels = [(''zone'', ''z''), (''job'', ''a''), (''instance'', ''b'')], Metrics = []\<rparr>
       = Key \<lparr>Labels = [(''instance'', ''b''), (''zone'', ''z''), (''job'', ''a'')], Metrics = []\<rparr>
   \<and> Key \<lparr>Labels = [(''zone'', ''z''), (''job'', ''a''), (''instance'', ''b'')], Metrics = []\<rparr>
       = Inr ''job/a/instance/b/zone/z''"
proof -
  have d1: "distinct (map fst (Labels \<lparr>Labels = [(''zone'', ''z''), (''job'', ''a''), (''instance'', ''b'')], Metrics = []\<rparr>))"
    by simp
  have d2: "distinct (map fst (Labels \<lparr>Labels = [(''instance'', ''b''), (''zone'', ''z''), (''job'', ''a'')], Metrics = []\<rparr>))"
    by simp
  have e: "set (Labels \<lparr>Labels = [(''zone'', ''z''), (''job'', ''a''), (''instance'', ''b'')], Metrics = []\<rparr>)
       = set (Labels \<lparr>Labels = [(''instance'', ''b''), (''zone'', ''z''), (''job'', ''a'')], Metrics = []\<rparr>)"
    by auto
  have k: "Key \<lparr>Labels = [(''instance'', ''b''), (''zone'', ''z''), (''job'', ''a'')], Metrics = []\<rparr>
       = Inr ''job/a/instance/b/zone/z''"
    by code_simp
  show ?thesis
    using Key_same_pairs [OF d1 d2 e] d1 d2 e k by simp
qed

section \<open>Claims about the reconciliation loop\<close>

subsection \<open>Claim C9\<close>

text \<open>
  C9. \<open>LabelNamesMatch\<close> with job and instance holds exactly when the set of label names
  is \<open>{job, instance}\<close>. For any other group the step of the loop returns the state it
  was given and does not fail: no key is recorded as received, no detector is created or
  updated, no event is added and the clock is not read.
\<close>

theorem skip_other_label_shapes:
  assumes "distinct (map fst (Labels g))"
  shows "LabelNamesMatch g [''job'', ''instance'']
           = (set (map fst (Labels g)) = {''job'', ''instance''})
         \<and> (set (map fst (Labels g)) \<noteq> {''job'', ''instance''} \<longrightarrow>
              process_group e c s g = Inr s \<and> received_key g = None)"
  using LabelNamesMatch_job_instance [OF assms] process_group_skip [of g e c s]
    received_key_None [of g]
  by simp

theorem skip_other_label_shapes_witness:
  "distinct (map fst (Labels \<lparr>Labels = [(''job'', ''a''), (''instance'', ''b''), (''zone'', ''z'')],
                               Metrics = [(''x'', \<lparr>Timestamp = 100\<rparr>)]\<rparr>))
   \<and> set (map fst (Labels \<lparr>Labels = [(''job'', ''a''), (''instance'', ''b''), (''zone'', ''z'')],
                             Metrics = [(''x'', \<lparr>Timestamp = 100\<rparr>)]\<rparr>))
       \<noteq> {''job'', ''instance''}
   \<and> process_group 0 (\<lambda>n. 170) (start_state [])
         \<lparr>Labels = [(''job'', ''a''), (''instance'', ''b''), (''zone'', ''z'')],
          Metrics = [(''x'', \<lparr>Timestamp = 100\<rparr>)]\<rparr>
       = Inr (start_state [])
   \<and> distinct (map fst (Labels \<lparr>Labels = [(''job'', ''a'')], Metrics = []\<rparr>))
   \<and> set (map fst (Labels \<lparr>Labels = [(''job'', ''a'')], Metrics = []\<rparr>)) \<noteq> {''job'', ''instance''}
   \<and> process_group 0 (\<lambda>n. 170) (start_state []) \<lparr>Labels = [(''job'', ''a'')], Metrics = []\<rparr>
       = Inr (start_state [])"
proof -
  let ?g3 = "\<lparr>Labels = [(''job'', ''a''), (''instance'', ''b''), (''zone'', ''z'')],
              Metrics = [(''x'', \<lparr>Timestamp = 100\<rparr>)]\<rparr>"
  let ?g1 = "\<lparr>Labels = [(''job'', ''a'')], Metrics = []\<rparr> :: MetricsGroup"
  have d3: "distinct (map fst (Labels ?g3))" by simp
  have "''zone'' \<in> set (map fst (Labels ?g3))" by simp
  moreover have "''zone'' \<notin> {''job'', ''instance''}" by simp
  ultimately have n3: "set (map fst (Labels ?g3)) \<noteq> {''job'', ''instance''}" by metis
  have d1: "distinct (map fst (Labels ?g1))" by simp
  have "''instance'' \<notin> set (map fst (Labels ?g1))" by simp
  then have n1: "set (map fst (Labels ?g1)) \<noteq> {''job'', ''instance''}" by blast
  show ?thesis
    using skip_other_label_shapes [OF d3, of 0 "\<lambda>n. 170" "start_state []"]
      skip_other_label_shapes [OF d1, of 0 "\<lambda>n. 170" "start_state []"] d3 n3 d1 n1
    by (simp only: simp_thms)
qed

subsection \<open>Claim C8\<close>

text \<open>
  C8. When the key of a tracked group is absent from \<open>states\<close>, the step inserts a
  detector with the representative timestamp, timeout 0 and \<open>up\<close> false, records the key
  as received, logs the addition and does nothing else: no request is sent, \<open>Update\<close> and
  \<open>IsUp\<close> are not called (the clock is not read).
\<close>

theorem new_group_created:
  assumes "LabelNamesMatch g [''job'', ''instance'']" and "Key g = Inr key"
    and "map_of (states s) key = None"
  shows "\<exists>ts. MinTimestamp (Filter (Metrics g) [''up'', ''push_time_seconds'', ''push_failure_time_seconds''])
                = Inr ts
           \<and> process_group e c s g =
               Inr (s\<lparr>receivedKeys := receivedKeys s @ [key],
                       states := AList.update key \<lparr>up = False, timestamp = ts, timeout = 0\<rparr> (states s),
                       events := events s @ [LogAdded key]\<rparr>)
           \<and> map_of (AList.update key \<lparr>up = False, timestamp = ts, timeout = 0\<rparr> (states s)) key
               = Some \<lparr>up = False, timestamp = ts, timeout = 0\<rparr>"
proof -
  obtain ts where ts: "MinTimestamp (Filter (Metrics g) filtered_names) = Inr ts"
    by (simp add: MinTimestamp_eq)
  have rk: "received_key g = Some key"
    using assms(1,2) by (simp add: received_key_Some)
  show ?thesis
    using process_group_added [OF rk ts assms(3), of e c] ts
    by (simp add: NewGroupState_def filtered_names_def update_conv')
qed

theorem new_group_created_witness:
  "LabelNamesMatch \<lparr>Labels = [(''job'', ''a''), (''instance'', ''b'')],
                    Metrics = [(''up'', \<lparr>Timestamp = 50\<rparr>), (''x'', \<lparr>Timestamp = 100\<rparr>)]\<rparr>
     [''job'', ''instance'']
   \<and> Key \<lparr>Labels = [(''job'', ''a''), (''instance'', ''b'')],
          Metrics = [(''up'', \<lparr>Timestamp = 50\<rparr>), (''x'', \<lparr>Timestamp = 100\<rparr>)]\<rparr>
       = Inr ''job/a/instance/b''
   \<and> map_of (states (start_state [])) ''job/a/instance/b'' = None
   \<and> process_group 0 (\<lambda>n. 170) (start_state [])
         \<lparr>Labels = [(''job'', ''a''), (''instance'', ''b'')],
          Metrics = [(''up'', \<lparr>Timestamp = 50\<rparr>), (''x'', \<lparr>Timestamp = 100\<rparr>)]\<rparr>
       = Inr \<lparr>states = [(''job/a/instance/b'', \<lparr>up = False, timestamp = 100, timeout = 0\<rparr>)],
              receivedKeys = [''job/a/instance/b''],
              events = [LogAdded ''job/a/instance/b''],
              reads = 1\<rparr>"
proof -
  let ?g = "\<lparr>Labels = [(''job'', ''a''), (''instance'', ''b'')],
             Metrics = [(''up'', \<lparr>Timestamp = 50\<rparr>), (''x'', \<lparr>Timestamp = 100\<rparr>)]\<rparr>"
  have m: "LabelNamesMatch ?g [''job'', ''instance'']"
    by (simp add: LabelNamesMatch_def)
  have k: "Key ?g = Inr ''job/a/instance/b''"
    by (simp add: Key_def label_at_def)
  have a: "map_of (states (start_state [])) ''job/a/instance/b'' = None"
    by (simp add: start_state_def)
  have ts: "MinTimestamp (Filter (Metrics ?g) [''up'', ''push_time_seconds'', ''push_failure_time_seconds''])
            = Inr 100"
    by (simp add: MinTimestamp_def Filter_def)
  show ?thesis
    using new_group_created [OF m k a, of 0 "\<lambda>n. 170"] m k a
    unfolding ts by (simp add: start_state_def)
qed

subsection \<open>Claim C6\<close>

text \<open>
  C6. For a tracked group, the timestamp that seeds a new detector and that is passed to
  \<open>Update\<close> is the minimum timestamp of the metrics other than up, push_time_seconds and
  push_failure_time_seconds (the zero Time when none is left), and the expiry test
  compares the maximum timestamp of all the metrics (the zero Time when there is none)
  with the expiration time.
\<close>

theorem representative_and_newest_timestamp:
  assumes "LabelNamesMatch g [''job'', ''instance'']" and "Key g = Inr key"
  shows "\<exists>ts newest.
           MinTimestamp (Filter (Metrics g) [''up'', ''push_time_seconds'', ''push_failure_time_seconds''])
             = Inr ts
         \<and> ts = (if \<forall>(name, metric)\<in>set (Metrics g).
                       name \<in> set [''up'', ''push_time_seconds'', ''push_failure_time_seconds'']
                  then 0
                  else Min {Timestamp metric | name metric.
                              (name, metric) \<in> set (Metrics g)
                              \<and> name \<notin> set [''up'', ''push_time_seconds'', ''push_failure_time_seconds'']})
         \<and> MaxTimestamp (Metrics g) = Inr newest
         \<and> newest = (if Metrics g = [] then 0
                      else Max {Timestamp metric | name metric. (name, metric) \<in> set (Metrics g)})
         \<and> (map_of (states s) key = None \<longrightarrow>
               process_group e c s g =
                 Inr (s\<lparr>receivedKeys := receivedKeys s @ [key],
                         states := AList.update key (NewGroupState ts) (states s),
                         events := events s @ [LogAdded key]\<rparr>))
         \<and> (\<forall>st. map_of (states s) key = Some st \<longrightarrow>
               (newest < e \<longrightarrow>
                  process_group e c s g =
                    Inr (s\<lparr>receivedKeys := receivedKeys s @ [key],
                            states := AList.delete key (states s),
                            events := events s @ [LogExpired key, DeleteCall key]\<rparr>))
               \<and> (\<not> newest < e \<longrightarrow>
                  (\<exists>s'. process_group e c s g = Inr s'
                        \<and> map_of (states s') key = Some (snd (Update st ts (c (reads s)))))))"
proof -
  let ?F = "[''up'', ''push_time_seconds'', ''push_failure_time_seconds'']"
  let ?kept = "Filter (Metrics g) ?F"
  define ts where "ts = (if ?kept = [] then 0 else Min ((\<lambda>(name, metric). Timestamp metric) ` set ?kept))"
  define newest where "newest = (if Metrics g = [] then 0
                                 else Max ((\<lambda>(name, metric). Timestamp metric) ` set (Metrics g)))"
  have ts: "MinTimestamp ?kept = Inr ts" "MinTimestamp (Filter (Metrics g) filtered_names) = Inr ts"
    unfolding ts_def filtered_names_def by (rule MinTimestamp_eq)+
  have newest: "MaxTimestamp (Metrics g) = Inr newest"
    unfolding newest_def by (rule MaxTimestamp_eq)
  have rk: "received_key g = Some key"
    using assms by (simp add: received_key_Some)
  have empty: "(?kept = []) = (\<forall>(name, metric)\<in>set (Metrics g). name \<in> set ?F)"
    by (auto simp add: Filter_def filter_empty_conv)
  have img1: "(\<lambda>(name, metric). Timestamp metric) ` set ?kept
              = {Timestamp metric | name metric. (name, metric) \<in> set (Metrics g) \<and> name \<notin> set ?F}"
    unfolding Filter_set by force
  have img2: "(\<lambda>(name, metric). Timestamp metric) ` set (Metrics g)
              = {Timestamp metric | name metric. (name, metric) \<in> set (Metrics g)}"
    by force
  have ts_eq: "ts = (if \<forall>(name, metric)\<in>set (Metrics g). name \<in> set ?F then 0
                     else Min {Timestamp metric | name metric.
                                 (name, metric) \<in> set (Metrics g) \<and> name \<notin> set ?F})"
    unfolding ts_def empty img1 ..
  have newest_eq: "newest = (if Metrics g = [] then 0
                             else Max {Timestamp metric | name metric. (name, metric) \<in> set (Metrics g)})"
    unfolding newest_def img2 ..
  have added: "map_of (states s) key = None \<Longrightarrow>
      process_group e c s g =
        Inr (s\<lparr>receivedKeys := receivedKeys s @ [key],
                states := AList.update key (NewGroupState ts) (states s),
                events := events s @ [LogAdded key]\<rparr>)"
    by (rule process_group_added [OF rk ts(2)])
  have expired: "map_of (states s) key = Some st \<Longrightarrow> newest < e \<Longrightarrow>
      process_group e c s g =
        Inr (s\<lparr>receivedKeys := receivedKeys s @ [key],
                states := AList.delete key (states s),
                events := events s @ [LogExpired key, DeleteCall key]\<rparr>)" for st
    by (rule process_group_expired [OF rk _ newest])
  have updated: "map_of (states s) key = Some st \<Longrightarrow> \<not> newest < e \<Longrightarrow>
      \<exists>s'. process_group e c s g = Inr s'
           \<and> map_of (states s') key = Some (snd (Update st ts (c (reads s))))" for st
    using process_group_updated [OF rk ts(2) _ newest, of s st e c]
    by (simp add: update_conv')
  show ?thesis
  proof (rule exI [of _ ts], rule exI [of _ newest], intro conjI allI impI)
    show "MinTimestamp ?kept = Inr ts" by (rule ts(1))
    show "ts = (if \<forall>(name, metric)\<in>set (Metrics g). name \<in> set ?F then 0
                else Min {Timestamp metric | name metric.
                            (name, metric) \<in> set (Metrics g) \<and> name \<notin> set ?F})"
      by (rule ts_eq)
    show "MaxTimestamp (Metrics g) = Inr newest" by (rule newest)
    show "newest = (if Metrics g = [] then 0
                    else Max {Timestamp metric | name metric. (name, metric) \<in> set (Metrics g)})"
      by (rule newest_eq)
  qed (fact added expired updated)+
qed

theorem representative_and_newest_timestamp_witness:
  "LabelNamesMatch \<lparr>Labels = [(''job'', ''a''), (''instance'', ''b'')],
                    Metrics = [(''up'', \<lparr>Timestamp = 500\<rparr>), (''x'', \<lparr>Timestamp = 160\<rparr>),
                               (''y'', \<lparr>Timestamp = 130\<rparr>)]\<rparr>
     [''job'', ''instance'']
   \<and> Key \<lparr>Labels = [(''job'', ''a''), (''instance'', ''b'')],
            Metrics = [(''up'', \<lparr>Timestamp = 500\<rparr>), (''x'', \<lparr>Timestamp = 160\<rparr>),
                       (''y'', \<lparr>Timestamp = 130\<rparr>)]\<rparr>
       = Inr ''job/a/instance/b''
   \<and> MinTimestamp (Filter [(''up'', \<lparr>Timestamp = 500\<rparr>), (''x'', \<lparr>Timestamp = 160\<rparr>),
                            (''y'', \<lparr>Timestamp = 130\<rparr>)]
                      [''up'', ''push_time_seconds'', ''push_failure_time_seconds'']) = Inr 130
   \<and> MaxTimestamp [(''up'', \<lparr>Timestamp = 500\<rparr>), (''x'', \<lparr>Timestamp = 160\<rparr>),
                    (''y'', \<lparr>Timestamp = 130\<rparr>)] = Inr 500
   \<and> \<not> (500 :: int) < 400
   \<and> (\<exists>s'. process_group 400 (\<lambda>n. 170)
               (start_state [(''job/a/instance/b'', \<lparr>up = False, timestamp = 100, timeout = 0\<rparr>)])
               \<lparr>Labels = [(''job'', ''a''), (''instance'', ''b'')],
                Metrics = [(''up'', \<lparr>Timestamp = 500\<rparr>), (''x'', \<lparr>Timestamp = 160\<rparr>),
                           (''y'', \<lparr>Timestamp = 130\<rparr>)]\<rparr> = Inr s'
            \<and> map_of (states s') ''job/a/instance/b''
                = Some (snd (Update \<lparr>up = False, timestamp = 100, timeout = 0\<rparr> 130 170)))
   \<and> process_group 400 (\<lambda>n. 170) (start_state [])
         \<lparr>Labels = [(''job'', ''a''), (''instance'', ''b'')],
          Metrics = [(''up'', \<lparr>Timestamp = 500\<rparr>), (''x'', \<lparr>Timestamp = 160\<rparr>),
                     (''y'', \<lparr>Timestamp = 130\<rparr>)]\<rparr>
       = Inr \<lparr>states = [(''job/a/instance/b'', NewGroupState 130)],
              receivedKeys = [''job/a/instance/b''],
              events = [LogAdded ''job/a/instance/b''],
              reads = 1\<rparr>"
proof -
  define k where "k = ''job/a/instance/b''"
  define st where "st = \<lparr>up = False, timestamp = 100, timeout = 0\<rparr>"
  define g where "g = \<lparr>Labels = [(''job'', ''a''), (''instance'', ''b'')],
             Metrics = [(''up'', \<lparr>Timestamp = 500\<rparr>), (''x'', \<lparr>Timestamp = 160\<rparr>),
                        (''y'', \<lparr>Timestamp = 130\<rparr>)]\<rparr>"
  define F where "F = [''up'', ''push_time_seconds'', ''push_failure_time_seconds'']"
  define s1 where "s1 = start_state [(k, st)]"
  define s0 where "s0 = start_state []"
  define c where "c = (\<lambda>n::nat. 170 :: int)"
  have m: "LabelNamesMatch g [''job'', ''instance'']"
    unfolding g_def by (simp add: LabelNamesMatch_def)
  have k: "Key g = Inr k"
    unfolding g_def k_def by (simp add: Key_def label_at_def)
  have mn: "MinTimestamp (Filter (Metrics g) F) = Inr 130"
    unfolding g_def F_def by (simp add: MinTimestamp_def Filter_def Time_Compare_def)
  have mx: "MaxTimestamp (Metrics g) = Inr 500"
    unfolding g_def by (simp add: MaxTimestamp_def Time_Compare_def)
  have tracked: "map_of (states s1) k = Some st"
    unfolding s1_def by (simp add: start_state_def)
  have untracked: "map_of (states s0) k = None"
    unfolding s0_def by (simp add: start_state_def)
  have rd: "c (reads s1) = 170" unfolding c_def by simp
  have ge: "\<not> (500 :: int) < 400" by simp
  have U: "\<exists>s'. process_group 400 c s1 g = Inr s'
            \<and> map_of (states s') k = Some (snd (Update st 130 170))"
    using representative_and_newest_timestamp [OF m k, of s1 400 c] tracked ge
    unfolding F_def [symmetric] mn mx rd by (elim exE conjE) auto
  have N: "process_group 400 c s0 g =
             Inr (s0\<lparr>receivedKeys := receivedKeys s0 @ [k],
                     states := AList.update k (NewGroupState 130) (states s0),
                     events := events s0 @ [LogAdded k]\<rparr>)"
    using representative_and_newest_timestamp [OF m k, of s0 400 c] untracked
    unfolding F_def [symmetric] mn mx by (elim exE conjE) auto
  have N': "process_group 400 c s0 g =
             Inr \<lparr>states = [(k, NewGroupState 130)], receivedKeys = [k],
                   events = [LogAdded k], reads = 1\<rparr>"
    unfolding N unfolding s0_def by (simp add: start_state_def)
  show ?thesis
    using m k mn mx U N'
    unfolding g_def k_def st_def F_def s1_def s0_def c_def by simp
qed

subsection \<open>Claim C5\<close>

text \<open>
  C5. In one tick, for a group TTL other than the minimal Duration: a key that is in
  \<open>states\<close> and is the key of no group of the snapshot is removed from \<open>states\<close>, with a
  log line and neither a delete nor an upset request. A key that is in \<open>states\<close> and is
  the key of exactly one group of the snapshot, whose newest timestamp over all its
  metrics is before now minus the TTL, is removed from \<open>states\<close>; the events about it are
  exactly the expiry log line and one delete request; the step for that group neither
  calls \<open>Update\<close> nor reads the clock.
\<close>

theorem tick_vanished_and_expired:
  assumes "minDuration < groupTTL" and "groupTTL \<le> maxDuration"
  shows "\<exists>s'. tick groupTTL clock states0 groups = Inr s'
           \<and> (map_of states0 key \<noteq> None \<and> (\<forall>g'\<in>set groups. received_key g' \<noteq> Some key) \<longrightarrow>
                map_of (states s') key = None
                \<and> DeleteCall key \<notin> set (events s')
                \<and> (\<forall>b. UpsetCall key b \<notin> set (events s'))
                \<and> LogRemoved key \<in> set (events s'))
           \<and> (map_of states0 key \<noteq> None \<and> groups = pre @ g # post
                \<and> (\<forall>g'\<in>set pre \<union> set post. received_key g' \<noteq> Some key)
                \<and> LabelNamesMatch g [''job'', ''instance''] \<and> Key g = Inr key
                \<and> MaxTimestamp (Metrics g) = Inr newest \<and> newest < clock 0 - groupTTL \<longrightarrow>
                map_of (states s') key = None
                \<and> filter (\<lambda>ev. event_key ev = key) (events s') = [LogExpired key, DeleteCall key]
                \<and> count_list (events s') (DeleteCall key) = 1
                \<and> (\<forall>b. UpsetCall key b \<notin> set (events s'))
                \<and> (\<forall>s st. map_of (states s) key = Some st \<longrightarrow>
                      process_group (clock 0 - groupTTL) clock s g =
                        Inr (s\<lparr>receivedKeys := receivedKeys s @ [key],
                                states := AList.delete key (states s),
                                events := events s @ [LogExpired key, DeleteCall key]\<rparr>)))"
proof -
  let ?e = "clock 0 - groupTTL"
  have e: "clock 0 + dur_neg groupTTL = ?e"
    using dur_neg_exact [OF assms] by simp
  obtain s where run: "process_groups ?e clock (start_state states0) groups = Inr s"
    using process_groups_total by blast
  let ?s' = "remove_missing (map fst (states s)) s"
  have t: "tick groupTTL clock states0 groups = Inr ?s'"
    using run tick_eq [of clock groupTTL states0 groups s] unfolding e by simp
  have p1: "map_of (states ?s') key = None
            \<and> DeleteCall key \<notin> set (events ?s')
            \<and> (\<forall>b. UpsetCall key b \<notin> set (events ?s'))
            \<and> LogRemoved key \<in> set (events ?s')"
    if "map_of states0 key \<noteq> None \<and> (\<forall>g'\<in>set groups. received_key g' \<noteq> Some key)"
    using tick_vanished [OF run] that by blast
  have p2: "map_of (states ?s') key = None
            \<and> filter (\<lambda>ev. event_key ev = key) (events ?s') = [LogExpired key, DeleteCall key]
            \<and> count_list (events ?s') (DeleteCall key) = 1
            \<and> (\<forall>b. UpsetCall key b \<notin> set (events ?s'))
            \<and> (\<forall>s st. map_of (states s) key = Some st \<longrightarrow>
                  process_group ?e clock s g =
                    Inr (s\<lparr>receivedKeys := receivedKeys s @ [key],
                            states := AList.delete key (states s),
                            events := events s @ [LogExpired key, DeleteCall key]\<rparr>))"
    if h: "map_of states0 key \<noteq> None \<and> groups = pre @ g # post
           \<and> (\<forall>g'\<in>set pre \<union> set post. received_key g' \<noteq> Some key)
           \<and> LabelNamesMatch g [''job'', ''instance''] \<and> Key g = Inr key
           \<and> MaxTimestamp (Metrics g) = Inr newest \<and> newest < ?e"
  proof -
    have rk: "received_key g = Some key"
      using h by (simp add: received_key_Some)
    have run': "process_groups ?e clock (start_state states0) (pre @ g # post) = Inr s"
      using run h by simp
    have te: "map_of (states ?s') key = None
              \<and> filter (\<lambda>ev. event_key ev = key) (events ?s') = [LogExpired key, DeleteCall key]"
      using tick_expired [OF run' _ _ rk, of newest] h by blast
    then have f: "filter (\<lambda>ev. event_key ev = key) (events ?s') = [LogExpired key, DeleteCall key]"
      by simp
    have "count_list (filter (\<lambda>ev. event_key ev = key) (events ?s')) (DeleteCall key)
          = count_list (events ?s') (DeleteCall key)"
      by (rule count_list_filter) simp
    then have cnt: "count_list (events ?s') (DeleteCall key) = 1"
      unfolding f by simp
    have nu: "UpsetCall key b \<notin> set (events ?s')" for b
    proof
      assume "UpsetCall key b \<in> set (events ?s')"
      then have "UpsetCall key b \<in> set (filter (\<lambda>ev. event_key ev = key) (events ?s'))"
        by simp
      then show False unfolding f by simp
    qed
    have step: "process_group ?e clock s0 g =
                  Inr (s0\<lparr>receivedKeys := receivedKeys s0 @ [key],
                           states := AList.delete key (states s0),
                           events := events s0 @ [LogExpired key, DeleteCall key]\<rparr>)"
      if "map_of (states s0) key = Some st" for s0 st
      using process_group_expired [OF rk that, of newest ?e clock] h by blast
    show ?thesis using te cnt nu step by blast
  qed
  show ?thesis
    using t p1 p2 by blast
qed

theorem tick_vanished_and_expired_witness:
  "minDuration < 1000 \<and> 1000 \<le> maxDuration
   \<and> map_of [(''job/a/instance/b'', \<lparr>up = False, timestamp = 100, timeout = 0\<rparr>)] ''job/a/instance/b''
       \<noteq> None
   \<and> (\<exists>s'. tick 1000 (\<lambda>n. 170)
               [(''job/a/instance/b'', \<lparr>up = False, timestamp = 100, timeout = 0\<rparr>)] [] = Inr s'
            \<and> map_of (states s') ''job/a/instance/b'' = None
            \<and> DeleteCall ''job/a/instance/b'' \<notin> set (events s')
            \<and> LogRemoved ''job/a/instance/b'' \<in> set (events s'))
   \<and> minDuration < 10 \<and> 10 \<le> maxDuration
   \<and> LabelNamesMatch \<lparr>Labels = [(''job'', ''a''), (''instance'', ''b'')],
                        Metrics = [(''up'', \<lparr>Timestamp = 500\<rparr>), (''x'', \<lparr>Timestamp = 160\<rparr>)]\<rparr>
         [''job'', ''instance'']
   \<and> Key \<lparr>Labels = [(''job'', ''a''), (''instance'', ''b'')],
            Metrics = [(''up'', \<lparr>Timestamp = 500\<rparr>), (''x'', \<lparr>Timestamp = 160\<rparr>)]\<rparr>
       = Inr ''job/a/instance/b''
   \<and> MaxTimestamp [(''up'', \<lparr>Timestamp = 500\<rparr>), (''x'', \<lparr>Timestamp = 160\<rparr>)] = Inr 500
   \<and> (500 :: int) < 1700 - 10
   \<and> (\<exists>s'. tick 10 (\<lambda>n. 1700)
               [(''job/a/instance/b'', \<lparr>up = False, timestamp = 100, timeout = 0\<rparr>)]
               [\<lparr>Labels = [(''job'', ''a''), (''instance'', ''b'')],
                 Metrics = [(''up'', \<lparr>Timestamp = 500\<rparr>), (''x'', \<lparr>Timestamp = 160\<rparr>)]\<rparr>] = Inr s'
            \<and> map_of (states s') ''job/a/instance/b'' = None
            \<and> count_list (events s') (DeleteCall ''job/a/instance/b'') = 1
            \<and> (\<forall>b. UpsetCall ''job/a/instance/b'' b \<notin> set (events s')))"
proof -
  define k where "k = ''job/a/instance/b''"
  define st0 where "st0 = [(k, \<lparr>up = False, timestamp = 100, timeout = 0\<rparr>)]"
  define g where "g = \<lparr>Labels = [(''job'', ''a''), (''instance'', ''b'')],
             Metrics = [(''up'', \<lparr>Timestamp = 500\<rparr>), (''x'', \<lparr>Timestamp = 160\<rparr>)]\<rparr>"
  define c1 where "c1 = (\<lambda>n::nat. 170 :: int)"
  define c2 where "c2 = (\<lambda>n::nat. 1700 :: int)"
  have r1: "minDuration < 1000" "1000 \<le> maxDuration" "minDuration < 10" "10 \<le> maxDuration"
    by (simp_all add: minDuration_def maxDuration_def)
  have tr: "map_of st0 k \<noteq> None" unfolding st0_def by simp
  have none: "\<forall>g'\<in>set ([] :: MetricsGroup list). received_key g' \<noteq> Some k" by simp
  have none2: "\<forall>g'\<in>set ([] :: MetricsGroup list) \<union> set []. received_key g' \<noteq> Some k" by simp
  have m: "LabelNamesMatch g [''job'', ''instance'']"
    unfolding g_def by (simp add: LabelNamesMatch_def)
  have k: "Key g = Inr k"
    unfolding g_def k_def by (simp add: Key_def label_at_def)
  have mx: "MaxTimestamp (Metrics g) = Inr 500"
    unfolding g_def by (simp add: MaxTimestamp_def Time_Compare_def)
  have lt: "(500 :: int) < c2 0 - 10" unfolding c2_def by simp
  have split: "[g] = [] @ g # []" by simp
  have A: "\<exists>s'. tick 1000 c1 st0 [] = Inr s'
            \<and> map_of (states s') k = None
            \<and> DeleteCall k \<notin> set (events s')
            \<and> LogRemoved k \<in> set (events s')"
    using tick_vanished_and_expired [OF r1(1,2), of c1 st0 "[]" k "[]" g "[]" 500] tr none
    by (elim exE conjE) auto
  have B: "\<exists>s'. tick 10 c2 st0 [g] = Inr s'
            \<and> map_of (states s') k = None
            \<and> count_list (events s') (DeleteCall k) = 1
            \<and> (\<forall>b. UpsetCall k b \<notin> set (events s'))"
    using tick_vanished_and_expired [OF r1(3,4), of c2 st0 "[g]" k "[]" g "[]" 500]
      tr none2 m k mx lt split
    by (elim exE conjE) auto
  have mx': "MaxTimestamp [(''up'', \<lparr>Timestamp = 500\<rparr>), (''x'', \<lparr>Timestamp = 160\<rparr>)] = Inr 500"
    using mx unfolding g_def by simp
  show ?thesis
    using r1 tr m k mx' A B
    unfolding g_def k_def st0_def c1_def c2_def by simp
qed

subsection \<open>Claim C10\<close>

lemma Filter_all_removed: "fst ` set m \<subseteq> set names \<Longrightarrow> Filter m names = []"
  by (auto simp add: Filter_def filter_empty_conv)

lemma Update_zero_state:
  "timestamp gs = 0 \<Longrightarrow> timeout gs = 0 \<Longrightarrow> \<not> up gs \<Longrightarrow> snd (Update gs 0 now) = gs"
  by (simp add: Update_def Let_def Time_After_def Time_IsZero_def IsUp_def)

lemma Updates_zero:
  "\<forall>(ts, now)\<in>set obs. ts = 0 \<Longrightarrow>
   fold (\<lambda>(ts, now) gs. snd (Update gs ts now)) obs (NewGroupState 0) = NewGroupState 0"
proof (induction obs)
  case Nil
  show ?case by simp
next
  case (Cons ob obs)
  obtain ts now where ob: "ob = (ts, now)" by (cases ob)
  have z: "ts = 0" using Cons.prems ob by simp
  have "snd (Update (NewGroupState 0) 0 now) = NewGroupState 0"
    by (rule Update_zero_state) (simp_all add: NewGroupState_def)
  then show ?case
    using Cons ob z by simp
qed

text \<open>
  C10. \<open>MinTimestamp\<close> and \<open>MaxTimestamp\<close> of the empty map are the zero Time, not a
  failure. So a tracked group all of whose metrics are removed by the filter is seeded
  with, and updated with, the zero Time. The detector takes the zero Time for unset:
  \<open>Update\<close> on a state whose timestamp is zero leaves the timeout as it is, after an
  \<open>Update\<close> with the zero Time \<open>IsUp\<close> is false at every instant, and a detector seeded with
  the zero Time and updated with nothing else stays in its initial state.
\<close>

theorem zero_timestamp_for_empty_metrics:
  "MinTimestamp [] = Inr 0 \<and> MaxTimestamp [] = Inr 0
   \<and> (fst ` set m \<subseteq> set names \<longrightarrow> MinTimestamp (Filter m names) = Inr 0)
   \<and> (LabelNamesMatch g [''job'', ''instance''] \<and> Key g = Inr key
       \<and> fst ` set (Metrics g) \<subseteq> set [''up'', ''push_time_seconds'', ''push_failure_time_seconds'']
       \<longrightarrow>
         (map_of (states s) key = None \<longrightarrow>
            process_group e c s g =
              Inr (s\<lparr>receivedKeys := receivedKeys s @ [key],
                      states := AList.update key \<lparr>up = False, timestamp = 0, timeout = 0\<rparr> (states s),
                      events := events s @ [LogAdded key]\<rparr>))
         \<and> (\<forall>st newest. map_of (states s) key = Some st
               \<and> MaxTimestamp (Metrics g) = Inr newest \<and> \<not> newest < e \<longrightarrow>
               (\<exists>s'. process_group e c s g = Inr s'
                     \<and> map_of (states s') key = Some (snd (Update st 0 (c (reads s)))))))
   \<and> (timestamp gs = 0 \<longrightarrow> timeout (snd (Update gs ts now)) = timeout gs \<and> \<not> IsUp gs now)
   \<and> (0 \<le> timestamp gs \<longrightarrow> timeout (snd (Update gs 0 now)) = timeout gs)
   \<and> \<not> IsUp (snd (Update gs 0 now)) now' \<and> \<not> up (snd (Update gs 0 now))
   \<and> ((\<forall>(ts, now)\<in>set obs. ts = 0) \<longrightarrow>
         fold (\<lambda>(ts, now) gs. snd (Update gs ts now)) obs (NewGroupState 0) = NewGroupState 0)"
proof -
  have a: "MinTimestamp [] = Inr 0" "MaxTimestamp [] = Inr 0"
    by (simp_all add: MinTimestamp_def MaxTimestamp_def)
  have b: "fst ` set m \<subseteq> set names \<longrightarrow> MinTimestamp (Filter m names) = Inr 0"
    by (simp add: Filter_all_removed a)
  have c: "(map_of (states s) key = None \<longrightarrow>
            process_group e c s g =
              Inr (s\<lparr>receivedKeys := receivedKeys s @ [key],
                      states := AList.update key \<lparr>up = False, timestamp = 0, timeout = 0\<rparr> (states s),
                      events := events s @ [LogAdded key]\<rparr>))
         \<and> (\<forall>st newest. map_of (states s) key = Some st
               \<and> MaxTimestamp (Metrics g) = Inr newest \<and> \<not> newest < e \<longrightarrow>
               (\<exists>s'. process_group e c s g = Inr s'
                     \<and> map_of (states s') key = Some (snd (Update st 0 (c (reads s))))))"
    if h: "LabelNamesMatch g [''job'', ''instance''] \<and> Key g = Inr key
       \<and> fst ` set (Metrics g) \<subseteq> set [''up'', ''push_time_seconds'', ''push_failure_time_seconds'']"
  proof -
    have rk: "received_key g = Some key"
      using h by (simp add: received_key_Some)
    have "Filter (Metrics g) filtered_names = []"
      using h unfolding filtered_names_def by (intro Filter_all_removed) blast
    then have ts: "MinTimestamp (Filter (Metrics g) filtered_names) = Inr 0"
      by (simp add: a)
    have c1: "map_of (states s) key = None \<Longrightarrow>
            process_group e c s g =
              Inr (s\<lparr>receivedKeys := receivedKeys s @ [key],
                      states := AList.update key \<lparr>up = False, timestamp = 0, timeout = 0\<rparr> (states s),
                      events := events s @ [LogAdded key]\<rparr>)"
      using process_group_added [OF rk ts, of s e c] by (simp add: NewGroupState_def)
    have c2: "map_of (states s) key = Some st \<Longrightarrow> MaxTimestamp (Metrics g) = Inr newest
              \<Longrightarrow> \<not> newest < e
              \<Longrightarrow> \<exists>s'. process_group e c s g = Inr s'
                     \<and> map_of (states s') key = Some (snd (Update st 0 (c (reads s))))" for st newest
      using process_group_updated [OF rk ts, of s st newest e c] by (simp add: update_conv')
    show ?thesis using c1 c2 by blast
  qed
  have d: "timestamp gs = 0 \<longrightarrow> timeout (snd (Update gs ts now)) = timeout gs \<and> \<not> IsUp gs now"
    by (simp add: Update_timeout_else IsUp_iff)
  have e: "0 \<le> timestamp gs \<longrightarrow> timeout (snd (Update gs 0 now)) = timeout gs"
    by (simp add: Update_timeout_else)
  have f: "\<not> IsUp (snd (Update gs 0 now)) now'" "\<not> up (snd (Update gs 0 now))"
    by (simp_all add: Update_up IsUp_iff Update_timestamp)
  have g: "(\<forall>(ts, now)\<in>set obs. ts = 0) \<longrightarrow>
         fold (\<lambda>(ts, now) gs. snd (Update gs ts now)) obs (NewGroupState 0) = NewGroupState 0"
    using Updates_zero by blast
  show ?thesis
    using a b c d e f g by (intro conjI impI) blast+
qed

theorem zero_timestamp_for_empty_metrics_witness:
  "fst ` set [(''up'', \<lparr>Timestamp = 500\<rparr>)]
     \<subseteq> set [''up'', ''push_time_seconds'', ''push_failure_time_seconds'']
   \<and> MinTimestamp (Filter [(''up'', \<lparr>Timestamp = 500\<rparr>)]
                      [''up'', ''push_time_seconds'', ''push_failure_time_seconds'']) = Inr 0
   \<and> timestamp \<lparr>up = False, timestamp = 0, timeout = 0\<rparr> = 0
   \<and> timeout (snd (Update \<lparr>up = False, timestamp = 0, timeout = 0\<rparr> 160 170)) = 0
   \<and> fold (\<lambda>(ts, now) gs. snd (Update gs ts now)) [(0, 170), (0, 190)] (NewGroupState 0)
       = NewGroupState 0"
proof -
  have h1: "fst ` set [(''up'', \<lparr>Timestamp = 500\<rparr>)]
     \<subseteq> set [''up'', ''push_time_seconds'', ''push_failure_time_seconds'']" by simp
  have h2: "timestamp \<lparr>up = False, timestamp = 0, timeout = 0\<rparr> = 0" by simp
  have h3: "\<forall>(ts, now)\<in>set [(0 :: int, 170 :: int), (0, 190)]. ts = 0" by simp
  show ?thesis
    using zero_timestamp_for_empty_metrics
      [of "[(''up'', \<lparr>Timestamp = 500\<rparr>)]"
          "[''up'', ''push_time_seconds'', ''push_failure_time_seconds'']"
          _ _ _ _ _ "\<lparr>up = False, timestamp = 0, timeout = 0\<rparr>" 160 170 _ "[(0, 170), (0, 190)]"]
      h1 h2 h3
    by simp
qed

end
